theory Spec2Isabelle
  imports Complex_Main "HOL-Library.Word"
begin

section \<open>Data model of \<open>src/lib/colorExtractor.ts\<close>\<close>

text \<open>
  The source computes with IEEE doubles; the model computes with real numbers
  (\<open>real\<close>), so a mean or a squared distance is the exact one. The sums of 8-bit
  channel values the code forms are integers far below \<open>2 ^ 53\<close> and exact in the
  source as well; only the quotients of the update step, the squared distances to such
  quotients and the products with a random draw are rounded there.
\<close>

text \<open>\<open>interface RGBColor { r; g; b }\<close>\<close>

record RGBColor =
  r :: real
  g :: real
  b :: real

text \<open>
  \<open>interface Point { r; g; b; cluster; distance }\<close>. The field \<open>distance\<close> receives
  \<open>minDistance\<close>, which starts at \<open>Infinity\<close>: \<open>None\<close> stands for \<open>Infinity\<close>.
\<close>

record Point = RGBColor +
  cluster :: nat
  distance :: "real option"

text \<open>
  The values a \<open>count\<close> or \<open>percentage\<close> holds at run time: a number, \<open>NaN\<close>, or
  \<open>undefined\<close> (a read past the end of \<open>clusterCounts\<close>).
\<close>

datatype jsnum = Num real | NaN | Undefined

text \<open>\<open>interface ColorData { color; count; percentage }\<close>\<close>

record ColorData =
  color :: string
  count :: jsnum
  percentage :: jsnum

text \<open>
  The argument \<open>colorCount\<close>: a count, so an integer when it is finite, or one of the
  non-finite values a JavaScript number can hold.
\<close>

datatype reqcount = Fin int | PosInf | NegInf | NotANumber

text \<open>The exceptions the engine raises in the modelled code.\<close>

datatype error = RangeError | TypeError

text \<open>How the promise returned by \<open>extractColors\<close> settles.\<close>

datatype outcome = Resolved "ColorData list" | Rejected error

section \<open>\<open>rgbToHex\<close> (\<open>src/lib/utils.ts\<close>)\<close>

text \<open>\<open>Math.round\<close>: the nearest integer, a tie going up.\<close>

definition mathRound :: "real \<Rightarrow> int" where
  "mathRound v = \<lfloor>v + 1 / 2\<rfloor>"

definition hexDigit :: "nat \<Rightarrow> char" where
  "hexDigit d = ''0123456789abcdef'' ! d"

text \<open>\<open>Number.prototype.toString(16)\<close> on an integer: lowercase digits, no padding.\<close>

fun hexDigits :: "nat \<Rightarrow> string" where
  "hexDigits n = (if n < 16 then [hexDigit n] else hexDigits (n div 16) @ [hexDigit (n mod 16)])"

declare hexDigits.simps [simp del]

definition toString16 :: "int \<Rightarrow> string" where
  "toString16 n = (if n < 0 then CHR ''-'' # hexDigits (nat (- n)) else hexDigits (nat n))"

text \<open>\<open>String.prototype.toUpperCase\<close> on ASCII text.\<close>

definition upperChar :: "char \<Rightarrow> char" where
  "upperChar c =
     (case map_of (zip ''abcdefghijklmnopqrstuvwxyz'' ''ABCDEFGHIJKLMNOPQRSTUVWXYZ'') c of
        Some u \<Rightarrow> u
      | None \<Rightarrow> c)"

definition toUpperCase :: "string \<Rightarrow> string" where
  "toUpperCase s = map upperChar s"

definition toHex :: "real \<Rightarrow> string" where
  "toHex v = (let hex = toString16 (mathRound v) in
     if length hex = 1 then ''0'' @ hex else hex)"

definition rgbToHex :: "real \<Rightarrow> real \<Rightarrow> real \<Rightarrow> string" where
  "rgbToHex rv gv bv = toUpperCase (''#'' @ toHex rv @ toHex gv @ toHex bv)"

text \<open>
  The format the specification asks for, written from its words: a channel as two
  uppercase hexadecimal digits, padded with a zero.
\<close>

definition upperPair :: "nat \<Rightarrow> string" where
  "upperPair n = [''0123456789ABCDEF'' ! (n div 16), ''0123456789ABCDEF'' ! (n mod 16)]"

section \<open>Downscaling (\<open>extractColors\<close>, lines 147 to 158)\<close>

text \<open>
  The processing size computed from the image's \<open>width\<close> and \<open>height\<close>, with
  \<open>maxDimension = 200\<close>.
\<close>

definition maxDimension :: nat where
  "maxDimension = 200"

definition downscale :: "nat \<Rightarrow> nat \<Rightarrow> nat \<times> nat" where
  "downscale width height =
     (if width > height \<and> width > maxDimension then
        (maxDimension, nat \<lfloor>(of_nat height :: real) * (of_nat maxDimension / of_nat width)\<rfloor>)
      else if height > maxDimension then
        (nat \<lfloor>(of_nat width :: real) * (of_nat maxDimension / of_nat height)\<rfloor>, maxDimension)
      else (width, height))"

section \<open>\<open>kMeans\<close>\<close>

text \<open>The squared Euclidean distance both loops compute with \<open>Math.pow\<close>.\<close>

definition sqDist :: "Point \<Rightarrow> RGBColor \<Rightarrow> real" where
  "sqDist p c = (r p - r c)\<^sup>2 + (g p - g c)\<^sup>2 + (b p - b c)\<^sup>2"

definition colourOf :: "Point \<Rightarrow> RGBColor" where
  "colourOf p = \<lparr>r = r p, g = g p, b = b p\<rparr>"

subsection \<open>Seeding (lines 29 to 76)\<close>

text \<open>
  The distance of a point to its nearest centroid in the seeding loop. The loop runs
  only after the first centroid \<open>c\<close> was pushed, and \<open>Math.min(Infinity, d) = d\<close>, so the
  minimum starts at the distance to \<open>c\<close> and runs over the centroids \<open>cs\<close> pushed after.
\<close>

definition minDistance :: "Point \<Rightarrow> RGBColor \<Rightarrow> RGBColor list \<Rightarrow> real" where
  "minDistance p c cs = fold (\<lambda>centroid m. min m (sqDist p centroid)) cs (sqDist p c)"

text \<open>
  The walk over the cumulative weights (lines 60 to 68): \<open>selectedIndex\<close> stays \<open>0\<close>
  when the loop ends without a \<open>break\<close>.
\<close>

fun selectIndex :: "real \<Rightarrow> real list \<Rightarrow> nat \<Rightarrow> nat" where
  "selectIndex randomValue [] j = 0"
| "selectIndex randomValue (d # ds) j =
     (let randomValue' = randomValue - d in
      if randomValue' \<le> 0 then j else selectIndex randomValue' ds (Suc j))"

text \<open>\<open>Math.min(colorCount, points.length)\<close> and the test \<open>i < k\<close> on JavaScript numbers.\<close>

fun mathMin :: "reqcount \<Rightarrow> nat \<Rightarrow> reqcount" where
  "mathMin (Fin K) n = Fin (min K (int n))"
| "mathMin PosInf n = Fin (int n)"
| "mathMin NegInf n = NegInf"
| "mathMin NotANumber n = NotANumber"

fun below :: "nat \<Rightarrow> reqcount \<Rightarrow> bool" where
  "below i (Fin K) = (int i < K)"
| "below i PosInf = True"
| "below i NegInf = False"
| "below i NotANumber = False"

text \<open>
  The loop \<open>for (let i = 1; i < k && i < points.length; i++)\<close>. \<open>random i\<close> is the value
  the \<open>i\<close>-th call of \<open>Math.random()\<close> returns (the first call being call \<open>0\<close>): the
  iteration with index \<open>i\<close> makes exactly that call. The centroids are \<open>c # cs\<close>.
\<close>

function seedLoop ::
  "(nat \<Rightarrow> real) \<Rightarrow> Point list \<Rightarrow> reqcount \<Rightarrow> nat \<Rightarrow> RGBColor \<Rightarrow> RGBColor list \<Rightarrow> RGBColor list"
where
  "seedLoop random points k i c cs =
     (if below i k \<and> i < length points then
        (let distances = map (\<lambda>point. minDistance point c cs) points;
             totalDistance = fold (\<lambda>d sum. sum + d) distances 0;
             randomValue = random i * totalDistance;
             selectedIndex = selectIndex randomValue distances 0
         in seedLoop random points k (Suc i) c (cs @ [colourOf (points ! selectedIndex)]))
      else c # cs)"
  by pat_completeness auto
termination
  by (relation "measure (\<lambda>(random, points, k, i, c, cs). length points - i)") auto

declare seedLoop.simps [simp del]

subsection \<open>Assignment step (lines 83 to 104)\<close>

text \<open>
  The inner loop over the centroids: \<open>minDistance\<close> starts at \<open>Infinity\<close> (\<open>None\<close>) and
  \<open>newCluster\<close> at \<open>0\<close>; a strictly smaller distance replaces both.
\<close>

fun nearest :: "Point \<Rightarrow> RGBColor list \<Rightarrow> nat \<Rightarrow> real option \<times> nat \<Rightarrow> real option \<times> nat" where
  "nearest point [] i acc = acc"
| "nearest point (c # cs) i (minD, newCluster) =
     (let d = sqDist point c in
      if (case minD of None \<Rightarrow> True | Some m \<Rightarrow> d < m)
      then nearest point cs (Suc i) (Some d, i)
      else nearest point cs (Suc i) (minD, newCluster))"

text \<open>The loop over the points, threading \<open>hasChanged\<close>.\<close>

fun assignStep :: "RGBColor list \<Rightarrow> Point list \<Rightarrow> bool \<Rightarrow> Point list \<times> bool" where
  "assignStep centroids [] hasChanged = ([], hasChanged)"
| "assignStep centroids (point # points) hasChanged =
     (let (minD, newCluster) = nearest point centroids 0 (None, 0);
          changed = (cluster point \<noteq> newCluster);
          (points', hasChanged') = assignStep centroids points (hasChanged \<or> changed)
      in (point\<lparr>cluster := newCluster, distance := minD\<rparr> # points', hasChanged'))"

subsection \<open>Update step (lines 111 to 129)\<close>

text \<open>
  The sums and counts per cluster. A point's \<open>cluster\<close> is an index of \<open>centroids\<close>
  here, since the assignment step has just set it (lemma \<open>assignStep_cluster_lt\<close>).
\<close>

definition accumulate :: "Point list \<Rightarrow> nat \<Rightarrow> RGBColor list \<times> nat list" where
  "accumulate points n =
     fold (\<lambda>point (newCentroids, counts).
             let c = cluster point; s = newCentroids ! c in
             (newCentroids[c := \<lparr>r = r s + r point, g = g s + g point, b = b s + b point\<rparr>],
              counts[c := counts ! c + 1]))
          points (replicate n \<lparr>r = 0, g = 0, b = 0\<rparr>, replicate n 0)"

definition updateCentroids :: "Point list \<Rightarrow> RGBColor list \<Rightarrow> RGBColor list" where
  "updateCentroids points centroids =
     (let (newCentroids, counts) = accumulate points (length centroids) in
      map (\<lambda>i. if counts ! i > 0
               then \<lparr>r = r (newCentroids ! i) / of_nat (counts ! i),
                     g = g (newCentroids ! i) / of_nat (counts ! i),
                     b = b (newCentroids ! i) / of_nat (counts ! i)\<rparr>
               else centroids ! i)
          [0..<length centroids])"

subsection \<open>The iteration and \<open>kMeans\<close>\<close>

text \<open>
  The loop \<open>for (iteration = 0; iteration < maxIterations; iteration++)\<close> with its
  \<open>break\<close>; the points are returned as well, since \<open>kMeans\<close> mutates their
  \<open>cluster\<close> fields and \<open>extractColors\<close> reads them afterwards.
\<close>

fun iterate :: "nat \<Rightarrow> Point list \<Rightarrow> RGBColor list \<Rightarrow> Point list \<times> RGBColor list" where
  "iterate 0 points centroids = (points, centroids)"
| "iterate (Suc n) points centroids =
     (let (points', hasChanged) = assignStep centroids points False in
      if \<not> hasChanged then (points', centroids)
      else iterate n points' (updateCentroids points' centroids))"

text \<open>
  \<open>kMeans(points, k, maxIterations)\<close>. \<open>points[firstIndex]\<close> outside the array is
  \<open>undefined\<close>, and reading its \<open>r\<close> raises a \<open>TypeError\<close>.
\<close>

definition kMeans ::
  "(nat \<Rightarrow> real) \<Rightarrow> Point list \<Rightarrow> reqcount \<Rightarrow> nat \<Rightarrow> error + Point list \<times> RGBColor list"
where
  "kMeans random points k maxIterations =
     (if length points > 0 then
        (let firstIndex = \<lfloor>random 0 * of_nat (length points)\<rfloor> in
         if 0 \<le> firstIndex \<and> firstIndex < int (length points) then
           Inr (iterate maxIterations points
                  (seedLoop random points k 1 (colourOf (points ! nat firstIndex)) []))
         else Inl TypeError)
      else Inr (iterate maxIterations points []))"

section \<open>\<open>extractColors\<close>, from the pixel data on (lines 173 to 231)\<close>

text \<open>
  \<open>data\<close> is the \<open>Uint8ClampedArray\<close> of an \<open>ImageData\<close>: four bytes per pixel, so
  its length is a multiple of four and the last equation is never reached with bytes
  left over.
\<close>

fun collectPoints :: "8 word list \<Rightarrow> Point list" where
  "collectPoints (rv # gv # bv # a # rest) =
     (if a < 128 then collectPoints rest
      else \<lparr>r = of_nat (unat rv), g = of_nat (unat gv), b = of_nat (unat bv),
            cluster = 0, distance = Some 0\<rparr> # collectPoints rest)"
| "collectPoints _ = []"

text \<open>
  \<open>new Array(k).fill(0)\<close>: a \<open>RangeError\<close> unless \<open>k\<close> is a valid array length. Here
  \<open>k\<close> is at most \<open>points.length\<close>, itself an array length, so only a negative or
  non-finite \<open>k\<close> can fail.
\<close>

fun newArray :: "reqcount \<Rightarrow> error + jsnum list" where
  "newArray (Fin n) = (if n < 0 then Inl RangeError else Inr (replicate (nat n) (Num 0)))"
| "newArray _ = Inl RangeError"

text \<open>
  \<open>clusterCounts[c]++\<close>: \<open>undefined\<close> and \<open>NaN\<close> increment to \<open>NaN\<close>, and a write past
  the end extends the array (the skipped indices read as \<open>undefined\<close>).
\<close>

fun plusOne :: "jsnum \<Rightarrow> jsnum" where
  "plusOne (Num x) = Num (x + 1)"
| "plusOne _ = NaN"

definition readAt :: "jsnum list \<Rightarrow> nat \<Rightarrow> jsnum" where
  "readAt xs i = (if i < length xs then xs ! i else Undefined)"

definition increment :: "nat \<Rightarrow> jsnum list \<Rightarrow> jsnum list" where
  "increment c xs =
     (if c < length xs then xs[c := plusOne (xs ! c)]
      else xs @ replicate (c - length xs) Undefined @ [NaN])"

text \<open>\<open>(count / totalPixels) * 100\<close> and \<open>count > 0\<close> on the values a count can hold.\<close>

fun percentOf :: "jsnum \<Rightarrow> nat \<Rightarrow> jsnum" where
  "percentOf (Num x) totalPixels = Num (x / of_nat totalPixels * 100)"
| "percentOf _ totalPixels = NaN"

fun positive :: "jsnum \<Rightarrow> bool" where
  "positive (Num x) = (x > 0)"
| "positive _ = False"

text \<open>
  \<open>.sort((a, b) => b.count - a.count)\<close>: a comparator result of \<open>NaN\<close> counts as \<open>0\<close>;
  \<open>Array.prototype.sort\<close> is stable, modelled as a stable insertion sort.
\<close>

definition compareFn :: "ColorData \<Rightarrow> ColorData \<Rightarrow> real" where
  "compareFn x y = (case (count y, count x) of (Num cy, Num cx) \<Rightarrow> cy - cx | _ \<Rightarrow> 0)"

fun insertSorted :: "ColorData \<Rightarrow> ColorData list \<Rightarrow> ColorData list" where
  "insertSorted x [] = [x]"
| "insertSorted x (y # ys) =
     (if compareFn x y \<le> 0 then x # y # ys else y # insertSorted x ys)"

definition sortEntries :: "ColorData list \<Rightarrow> ColorData list" where
  "sortEntries xs = foldr insertSorted xs []"

definition maxIterationsDefault :: nat where
  "maxIterationsDefault = 100"

definition fallback :: "ColorData list" where
  "fallback = [\<lparr>color = ''#FFFFFF'', count = Num 1, percentage = Num 100\<rparr>]"

text \<open>
  The body of \<open>img.onload\<close> after \<open>getImageData\<close>, with the promise's settlement as
  the result. Loading and drawing the image belong to the browser and are not modelled.
\<close>

definition extractColors :: "(nat \<Rightarrow> real) \<Rightarrow> 8 word list \<Rightarrow> reqcount \<Rightarrow> outcome" where
  "extractColors random data colorCount =
     (let points = collectPoints data in
      if length points = 0 then Resolved fallback
      else
        let k = mathMin colorCount (length points) in
        case kMeans random points k maxIterationsDefault of
          Inl e \<Rightarrow> Rejected e
        | Inr (points', centroids) \<Rightarrow>
            (case newArray k of
               Inl e \<Rightarrow> Rejected e
             | Inr zeros \<Rightarrow>
                 let clusterCounts = fold (\<lambda>point. increment (cluster point)) points' zeros;
                     totalPixels = length points'
                 in Resolved (sortEntries (filter (\<lambda>e. positive (count e))
                      (map (\<lambda>(centroid, index).
                              \<lparr>color = rgbToHex (r centroid) (g centroid) (b centroid),
                               count = readAt clusterCounts index,
                               percentage = percentOf (readAt clusterCounts index) totalPixels\<rparr>)
                           (zip centroids [0..<length centroids]))))))"

section \<open>Notions used in the statements and proofs\<close>

text \<open>A colour or a point whose three channels lie in \<open>[0, 255]\<close>.\<close>

definition inRange :: "'a RGBColor_scheme \<Rightarrow> bool" where
  "inRange c = (0 \<le> r c \<and> r c \<le> 255 \<and> 0 \<le> g c \<and> g c \<le> 255 \<and> 0 \<le> b c \<and> b c \<le> 255)"

text \<open>What one pass of the assignment loop body does to a point.\<close>

definition assigned :: "RGBColor list \<Rightarrow> Point \<Rightarrow> Point" where
  "assigned centroids point =
     point\<lparr>cluster := snd (nearest point centroids 0 (None, 0)),
           distance := fst (nearest point centroids 0 (None, 0))\<rparr>"

text \<open>The component-wise mean of a non-empty list of points.\<close>

definition meanColour :: "Point list \<Rightarrow> RGBColor" where
  "meanColour members =
     \<lparr>r = sum_list (map r members) / of_nat (length members),
      g = sum_list (map g members) / of_nat (length members),
      b = sum_list (map b members) / of_nat (length members)\<rparr>"

text \<open>Points of one colour lie in one cluster.\<close>

definition colourwise :: "Point list \<Rightarrow> bool" where
  "colourwise points =
     (\<forall>p\<in>set points. \<forall>q\<in>set points. colourOf p = colourOf q \<longrightarrow> cluster p = cluster q)"

text \<open>
  The count of an entry as a natural number, and the entries a palette can hold for
  \<open>n\<close> samples: a positive whole count of at most \<open>n\<close>, with its share in percent.
\<close>

definition countNat :: "ColorData \<Rightarrow> nat" where
  "countNat e = (case count e of Num x \<Rightarrow> nat \<lfloor>x\<rfloor> | _ \<Rightarrow> 0)"

definition goodEntry :: "nat \<Rightarrow> ColorData \<Rightarrow> bool" where
  "goodEntry n e =
     (0 < countNat e \<and> countNat e \<le> n \<and> count e = Num (of_nat (countNat e)) \<and>
      percentage e = Num (of_nat (countNat e) / of_nat n * 100))"

text \<open>The values an element of \<open>clusterCounts\<close> can hold after at most \<open>n\<close> increments.\<close>

definition validCount :: "nat \<Rightarrow> jsnum \<Rightarrow> bool" where
  "validCount n x = (x = NaN \<or> x = Undefined \<or> x \<in> (\<lambda>m. Num (of_nat m)) ` {..n})"

section \<open>The empty sample set\<close>

lemma collectPoints_transparent:
  "(\<forall>i. 4 * i + 3 < length data \<longrightarrow> data ! (4 * i + 3) < 128) \<Longrightarrow> collectPoints data = []"
proof (induction data rule: collectPoints.induct)
  case (1 rv gv bv a rest)
  from "1.prems" have "(rv # gv # bv # a # rest) ! (4 * 0 + 3) < 128"
    by (metis (no_types, lifting) One_nat_def Suc_less_eq add_Suc_right length_Cons mult_0_right
        numeral_3_eq_3 plus_nat.add_0 zero_less_Suc)
  then have a: "a < 128" by simp
  have "\<forall>i. 4 * i + 3 < length rest \<longrightarrow> rest ! (4 * i + 3) < 128"
  proof (intro allI impI)
    fix i assume "4 * i + 3 < length rest"
    then have "4 * Suc i + 3 < length (rv # gv # bv # a # rest)" by simp
    with "1.prems" have "(rv # gv # bv # a # rest) ! (4 * Suc i + 3) < 128" by blast
    moreover have "4 * Suc i + 3 = Suc (Suc (Suc (Suc (4 * i + 3))))" by simp
    ultimately show "rest ! (4 * i + 3) < 128" by (simp add: add.commute)
  qed
  with a "1.IH" show ?case by simp
qed simp_all

text \<open>
  Claim C5. When every pixel of the image has an alpha value below 128 (the alpha byte
  of pixel \<open>i\<close> is \<open>data ! (4 * i + 3)\<close>), no sample is eligible, and \<open>extractColors\<close>
  resolves with the single entry \<open>{color: "#FFFFFF", count: 1, percentage: 100}\<close>,
  whatever the requested count and the random draws are: the clusterer has no part in
  the result.
\<close>

theorem empty_samples_fallback:
  "(\<forall>i. 4 * i + 3 < length data \<longrightarrow> data ! (4 * i + 3) < 128) \<Longrightarrow>
   extractColors random data colorCount =
     Resolved [\<lparr>color = ''#FFFFFF'', count = Num 1, percentage = Num 100\<rparr>]"
  by (simp add: collectPoints_transparent extractColors_def fallback_def)

theorem empty_samples_fallback_witness:
  "extractColors (\<lambda>i. 0) [10, 20, 30, 0, 255, 255, 255, 127] (Fin (-3)) =
     Resolved [\<lparr>color = ''#FFFFFF'', count = Num 1, percentage = Num 100\<rparr>]"
proof -
  have "\<forall>i. 4 * i + 3 < length [10, 20, 30, 0, 255, 255, 255, 127 :: 8 word] \<longrightarrow>
          [10, 20, 30, 0, 255, 255, 255, 127 :: 8 word] ! (4 * i + 3) < 128"
  proof (intro allI impI)
    fix i :: nat
    assume "4 * i + 3 < length [10, 20, 30, 0, 255, 255, 255, 127 :: 8 word]"
    then have "i = 0 \<or> i = 1" by auto
    then show "[10, 20, 30, 0, 255, 255, 255, 127 :: 8 word] ! (4 * i + 3) < 128"
      by auto
  qed
  then show ?thesis by (rule empty_samples_fallback)
qed

section \<open>The downscaling arithmetic\<close>

text \<open>
  Claim C10. The proportional scale with floor rounding can produce a dimension of 0:
  an image 10000 wide and 1 high is scaled to 200 by 0. So there are inputs with both
  dimensions at least 1 and the larger one above 200 for which a computed dimension
  is 0.
\<close>

theorem downscale_zero_dimension:
  "downscale 10000 1 = (200, 0) \<and>
   (\<exists>width height. 1 \<le> width \<and> 1 \<le> height \<and> 200 < max width height \<and>
      (fst (downscale width height) = 0 \<or> snd (downscale width height) = 0))"
proof -
  have d: "downscale 10000 1 = (200, 0)"
    by (simp add: downscale_def maxDimension_def)
  have "1 \<le> (10000::nat) \<and> 1 \<le> (1::nat) \<and> 200 < max (10000::nat) 1 \<and>
      (fst (downscale 10000 1) = 0 \<or> snd (downscale 10000 1) = 0)"
    using d by simp
  then show ?thesis using d by blast
qed

section \<open>Hexadecimal formatting\<close>

lemma upperChar_hexDigit:
  assumes "d < 16"
  shows "upperChar (hexDigit d) = ''0123456789ABCDEF'' ! d"
proof -
  have "\<forall>d\<in>set [0..<16]. upperChar (hexDigit d) = ''0123456789ABCDEF'' ! d"
    by code_simp
  with assms show ?thesis by simp
qed

lemma hexDigits_byte:
  assumes "n < 256"
  shows "hexDigits n = (if n < 16 then [hexDigit n] else [hexDigit (n div 16), hexDigit (n mod 16)])"
proof (cases "n < 16")
  case True
  then show ?thesis by (simp add: hexDigits.simps)
next
  case False
  from assms have "n div 16 < 16" by simp
  then have "hexDigits (n div 16) = [hexDigit (n div 16)]"
    by (simp add: hexDigits.simps)
  with False show ?thesis
    by (subst hexDigits.simps) simp
qed

lemma toHex_byte:
  assumes "0 \<le> mathRound v" and "mathRound v \<le> 255"
  shows "toUpperCase (toHex v) = upperPair (nat (mathRound v))"
proof -
  define n where "n = nat (mathRound v)"
  have n: "n < 256" and m: "mathRound v = int n"
    using assms by (simp_all add: n_def)
  have hi: "n div 16 < 16" and lo: "n mod 16 < 16" using n by simp_all
  have "toHex v = [hexDigit (n div 16), hexDigit (n mod 16)]"
  proof (cases "n < 16")
    case True
    then have "hexDigit (n div 16) = CHR ''0''" by (simp add: hexDigit_def)
    with True n show ?thesis
      by (simp add: toHex_def toString16_def m hexDigits_byte)
  next
    case False
    with n show ?thesis
      by (simp add: toHex_def toString16_def m hexDigits_byte)
  qed
  then show ?thesis
    using upperChar_hexDigit [OF hi] upperChar_hexDigit [OF lo]
    by (simp add: toUpperCase_def upperPair_def n_def)
qed

lemma mathRound_byte:
  assumes "0 \<le> v" and "v \<le> 255"
  shows "0 \<le> mathRound v" and "mathRound v \<le> 255"
    and "\<bar>real (nat (mathRound v)) - v\<bar> \<le> 1 / 2"
proof -
  show lo: "0 \<le> mathRound v" using assms by (simp add: mathRound_def)
  have "v + 1 / 2 < 256" using assms by simp
  then have "\<lfloor>v + 1 / 2\<rfloor> < 256" by (simp add: floor_less_iff)
  then show "mathRound v \<le> 255" by (simp add: mathRound_def)
  have "real_of_int \<lfloor>v + 1 / 2\<rfloor> \<le> v + 1 / 2" and "v + 1 / 2 < real_of_int \<lfloor>v + 1 / 2\<rfloor> + 1"
    by linarith+
  then have "\<bar>real_of_int (mathRound v) - v\<bar> \<le> 1 / 2"
    unfolding mathRound_def by linarith
  with lo show "\<bar>real (nat (mathRound v)) - v\<bar> \<le> 1 / 2" by simp
qed

text \<open>
  Claim C8. For channel values in \<open>[0, 255]\<close>, fractional or not, \<open>rgbToHex\<close> returns
  \<open>#\<close> followed by three pairs of uppercase hexadecimal digits, each pair the
  zero-padded value of an integer in \<open>[0, 255]\<close> that is nearest to its channel (at
  distance at most one half): seven characters of the form \<open>#RRGGBB\<close>.
\<close>

theorem rgbToHex_format:
  assumes "0 \<le> rv" "rv \<le> 255" "0 \<le> gv" "gv \<le> 255" "0 \<le> bv" "bv \<le> 255"
  shows "\<exists>R G B :: nat. R \<le> 255 \<and> G \<le> 255 \<and> B \<le> 255 \<and>
           \<bar>real R - rv\<bar> \<le> 1 / 2 \<and> \<bar>real G - gv\<bar> \<le> 1 / 2 \<and> \<bar>real B - bv\<bar> \<le> 1 / 2 \<and>
           rgbToHex rv gv bv = CHR ''#'' # upperPair R @ upperPair G @ upperPair B \<and>
           length (rgbToHex rv gv bv) = 7"
proof -
  note R = mathRound_byte [OF assms(1,2)]
  note G = mathRound_byte [OF assms(3,4)]
  note B = mathRound_byte [OF assms(5,6)]
  have hash: "upperChar CHR ''#'' = CHR ''#''" by (simp add: upperChar_def)
  have eq: "rgbToHex rv gv bv = CHR ''#'' # upperPair (nat (mathRound rv)) @
      upperPair (nat (mathRound gv)) @ upperPair (nat (mathRound bv))"
    using toHex_byte [OF R(1,2)] toHex_byte [OF G(1,2)] toHex_byte [OF B(1,2)] hash
    by (simp add: rgbToHex_def toUpperCase_def)
  have len: "length (rgbToHex rv gv bv) = 7" by (simp add: eq upperPair_def)
  have "nat (mathRound rv) \<le> 255" "nat (mathRound gv) \<le> 255" "nat (mathRound bv) \<le> 255"
    using R(2) G(2) B(2) by simp_all
  with R(3) G(3) B(3) eq len show ?thesis by blast
qed

theorem rgbToHex_format_witness:
  "(0::real) \<le> 255 / 2 \<and> (255::real) / 2 \<le> 255 \<and>
   (\<exists>R G B :: nat. R \<le> 255 \<and> G \<le> 255 \<and> B \<le> 255 \<and>
           \<bar>real R - 255\<bar> \<le> 1 / 2 \<and> \<bar>real G - 0\<bar> \<le> 1 / 2 \<and> \<bar>real B - 255 / 2\<bar> \<le> 1 / 2 \<and>
           rgbToHex 255 0 (255 / 2) = CHR ''#'' # upperPair R @ upperPair G @ upperPair B \<and>
           length (rgbToHex 255 0 (255 / 2)) = 7)"
  using rgbToHex_format [of 255 0 "255 / 2"] by simp

section \<open>Properties of the seeding loop\<close>

lemma selectIndex_bound: "selectIndex rv ds j < max 1 (j + length ds)"
proof (induction ds arbitrary: rv j)
  case Nil
  then show ?case by simp
next
  case (Cons d ds)
  have "selectIndex (rv - d) ds (Suc j) < max 1 (Suc j + length ds)" by (rule Cons.IH)
  then show ?case by (simp add: Let_def max_def)
qed

lemma selectIndex_less: "ds \<noteq> [] \<Longrightarrow> selectIndex rv ds 0 < length ds"
  using selectIndex_bound [of rv ds 0] by (cases ds) auto

lemma seedLoop_stop:
  "\<not> (below i k \<and> i < length points) \<Longrightarrow> seedLoop random points k i c cs = c # cs"
  by (rule trans [OF seedLoop.simps]) (rule if_not_P)

lemma seedLoop_step:
  "below i k \<and> i < length points \<Longrightarrow>
   seedLoop random points k i c cs =
     seedLoop random points k (Suc i) c
       (cs @ [colourOf (points ! selectIndex
          (random i * fold (\<lambda>d sum. sum + d) (map (\<lambda>point. minDistance point c cs) points) 0)
          (map (\<lambda>point. minDistance point c cs) points) 0)])"
  by (rule trans [OF seedLoop.simps]) (simp add: Let_def)

lemma seedLoop_set:
  "set (seedLoop random points k i c cs) \<subseteq> insert c (set cs \<union> colourOf ` set points)"
proof (induction random points k i c cs rule: seedLoop.induct)
  case (1 random points k i c cs)
  show ?case
  proof (cases "below i k \<and> i < length points")
    case True
    define sel where "sel = selectIndex (random i * fold (\<lambda>d sum. sum + d)
        (map (\<lambda>point. minDistance point c cs) points) 0)
        (map (\<lambda>point. minDistance point c cs) points) 0"
    from True have "points \<noteq> []" by auto
    then have "sel < length points"
      unfolding sel_def using selectIndex_less [of "map (\<lambda>point. minDistance point c cs) points"]
      by simp
    then have mem: "colourOf (points ! sel) \<in> colourOf ` set points" by simp
    have "set (seedLoop random points k (Suc i) c (cs @ [colourOf (points ! sel)]))
        \<subseteq> insert c (set (cs @ [colourOf (points ! sel)]) \<union> colourOf ` set points)"
      using "1.IH" [OF True refl refl refl refl] by (simp add: sel_def)
    moreover have "seedLoop random points k i c cs =
        seedLoop random points k (Suc i) c (cs @ [colourOf (points ! sel)])"
      unfolding sel_def by (rule seedLoop_step [OF True])
    ultimately show ?thesis using mem by auto
  next
    case False
    then show ?thesis by (auto simp: seedLoop_stop)
  qed
qed

lemma seedLoop_length:
  "length (seedLoop random points (Fin K) i c cs) =
     Suc (length cs) + (nat (min K (int (length points))) - i)"
proof (induction random points "Fin K" i c cs rule: seedLoop.induct)
  case (1 random points i c cs)
  show ?case
  proof (cases "below i (Fin K) \<and> i < length points")
    case True
    have "length (seedLoop random points (Fin K) i c cs) =
        Suc (Suc (length cs)) + (nat (min K (int (length points))) - Suc i)"
      using "1.hyps" [OF True refl refl refl refl]
      by (simp add: seedLoop_step [OF True])
    moreover from True have "i < nat (min K (int (length points)))" by auto
    ultimately show ?thesis by arith
  next
    case False
    then have "nat (min K (int (length points))) - i = 0" by auto
    with False show ?thesis by (simp add: seedLoop_stop)
  qed
qed

lemma seedLoop_not_Nil: "seedLoop random points k i c cs \<noteq> []"
proof (induction random points k i c cs rule: seedLoop.induct)
  case (1 random points k i c cs)
  show ?case
  proof (cases "below i k \<and> i < length points")
    case True
    then show ?thesis
      using "1.IH" [OF True refl refl refl refl]
      by (simp add: seedLoop_step [OF True])
  next
    case False
    then show ?thesis by (simp add: seedLoop_stop)
  qed
qed

lemma seedLoop_random_cong:
  "(\<forall>j. i \<le> j \<and> j < length points \<longrightarrow> random1 j = random2 j) \<Longrightarrow>
   seedLoop random1 points k i c cs = seedLoop random2 points k i c cs"
proof (induction random1 points k i c cs rule: seedLoop.induct)
  case (1 random1 points k i c cs)
  show ?case
  proof (cases "below i k \<and> i < length points")
    case True
    then have eq: "random1 i = random2 i" using "1.prems" by simp
    have "\<forall>j. Suc i \<le> j \<and> j < length points \<longrightarrow> random1 j = random2 j"
      using "1.prems" by simp
    from "1.IH" [OF True refl refl refl refl this] eq show ?thesis
      by (simp add: seedLoop_step [OF True])
  next
    case False
    then show ?thesis by (simp add: seedLoop_stop)
  qed
qed

section \<open>Properties of the assignment step\<close>

lemma nearest_index_less:
  "j < N \<Longrightarrow> i + length cs \<le> N \<Longrightarrow> snd (nearest p cs i (m, j)) < N"
  by (induction cs arbitrary: i m j) (auto simp: Let_def)

lemma sqDist_colour: "colourOf p = colourOf q \<Longrightarrow> sqDist p c = sqDist q c"
  by (simp add: sqDist_def colourOf_def)

lemma nearest_colour:
  "colourOf p = colourOf q \<Longrightarrow> nearest p cs i acc = nearest q cs i acc"
proof (induction cs arbitrary: i acc)
  case Nil
  then show ?case by simp
next
  case (Cons c cs)
  obtain m j where acc: "acc = (m, j)" by (cases acc)
  from Cons show ?case by (simp add: acc Let_def sqDist_colour [of p q])
qed

lemma assignStep_fst: "fst (assignStep cs ps h) = map (assigned cs) ps"
proof (induction ps arbitrary: h)
  case Nil
  then show ?case by simp
next
  case (Cons p ps)
  obtain m j where n: "nearest p cs 0 (None, 0) = (m, j)" by (cases "nearest p cs 0 (None, 0)")
  obtain ps' h' where a: "assignStep cs ps (h \<or> cluster p \<noteq> j) = (ps', h')"
    by (cases "assignStep cs ps (h \<or> cluster p \<noteq> j)")
  from Cons.IH [of "h \<or> cluster p \<noteq> j"] a have "ps' = map (assigned cs) ps" by simp
  then show ?case by (simp add: n a assigned_def)
qed

lemma assigned_cluster_lt: "cs \<noteq> [] \<Longrightarrow> cluster (assigned cs p) < length cs"
  using nearest_index_less [of 0 "length cs" 0 cs p None] by (simp add: assigned_def)

lemma assigned_colour [simp]: "colourOf (assigned cs p) = colourOf p"
  by (simp add: assigned_def colourOf_def)

lemma assigned_same_cluster:
  "colourOf p = colourOf q \<Longrightarrow> cluster (assigned cs p) = cluster (assigned cs q)"
  by (simp add: assigned_def nearest_colour [of p q])

lemma assignStep_cluster_lt:
  "cs \<noteq> [] \<Longrightarrow> p \<in> set (fst (assignStep cs ps h)) \<Longrightarrow> cluster p < length cs"
  by (auto simp: assignStep_fst assigned_cluster_lt)

section \<open>Properties of the update step\<close>

lemma accumulate_fold:
  assumes "length nc = n" and "length counts = n"
  shows "case fold (\<lambda>point (newCentroids, counts).
             let c = cluster point; s = newCentroids ! c in
             (newCentroids[c := \<lparr>r = r s + r point, g = g s + g point, b = b s + b point\<rparr>],
              counts[c := counts ! c + 1])) ps (nc, counts) of (nc', counts') \<Rightarrow>
     length nc' = n \<and> length counts' = n \<and>
     (\<forall>i<n. counts' ! i = counts ! i + length (filter (\<lambda>p. cluster p = i) ps) \<and>
        r (nc' ! i) = r (nc ! i) + sum_list (map r (filter (\<lambda>p. cluster p = i) ps)) \<and>
        g (nc' ! i) = g (nc ! i) + sum_list (map g (filter (\<lambda>p. cluster p = i) ps)) \<and>
        b (nc' ! i) = b (nc ! i) + sum_list (map b (filter (\<lambda>p. cluster p = i) ps)))"
  using assms
proof (induction ps arbitrary: nc counts)
  case Nil
  then show ?case by simp
next
  case (Cons p ps)
  define c where "c = cluster p"
  define nc1 where "nc1 = nc[c := \<lparr>r = r (nc ! c) + r p, g = g (nc ! c) + g p, b = b (nc ! c) + b p\<rparr>]"
  define counts1 where "counts1 = counts[c := counts ! c + 1]"
  have len: "length nc1 = n" "length counts1 = n"
    using Cons.prems by (simp_all add: nc1_def counts1_def)
  note IH = Cons.IH [OF len]
  have step: "fold (\<lambda>point (newCentroids, counts).
             let c = cluster point; s = newCentroids ! c in
             (newCentroids[c := \<lparr>r = r s + r point, g = g s + g point, b = b s + b point\<rparr>],
              counts[c := counts ! c + 1])) (p # ps) (nc, counts) =
        fold (\<lambda>point (newCentroids, counts).
             let c = cluster point; s = newCentroids ! c in
             (newCentroids[c := \<lparr>r = r s + r point, g = g s + g point, b = b s + b point\<rparr>],
              counts[c := counts ! c + 1])) ps (nc1, counts1)"
    by (simp add: nc1_def counts1_def c_def Let_def)
  have upd: "\<forall>i<n. counts1 ! i = counts ! i + (if cluster p = i then 1 else 0) \<and>
      r (nc1 ! i) = r (nc ! i) + (if cluster p = i then r p else 0) \<and>
      g (nc1 ! i) = g (nc ! i) + (if cluster p = i then g p else 0) \<and>
      b (nc1 ! i) = b (nc ! i) + (if cluster p = i then b p else 0)"
    using Cons.prems by (auto simp: nc1_def counts1_def c_def nth_list_update)
  show ?case
    unfolding step using IH upd
    by (auto split: prod.splits)
qed

lemma accumulate_spec:
  "case accumulate ps n of (nc', counts') \<Rightarrow>
     length nc' = n \<and> length counts' = n \<and>
     (\<forall>i<n. counts' ! i = length (filter (\<lambda>p. cluster p = i) ps) \<and>
        r (nc' ! i) = sum_list (map r (filter (\<lambda>p. cluster p = i) ps)) \<and>
        g (nc' ! i) = sum_list (map g (filter (\<lambda>p. cluster p = i) ps)) \<and>
        b (nc' ! i) = sum_list (map b (filter (\<lambda>p. cluster p = i) ps)))"
  using accumulate_fold [where nc = "replicate n \<lparr>r = 0, g = 0, b = 0\<rparr>" and n = n
      and counts = "replicate n 0" and ps = ps]
  by (auto simp: accumulate_def split: prod.splits)

lemma updateCentroids_length [simp]:
  "length (updateCentroids ps cs) = length cs"
  by (simp add: updateCentroids_def split: prod.splits)

lemma updateCentroids_nth:
  assumes "i < length cs"
  shows "updateCentroids ps cs ! i =
     (if filter (\<lambda>p. cluster p = i) ps = [] then cs ! i
      else meanColour (filter (\<lambda>p. cluster p = i) ps))"
  using accumulate_spec [where ps = ps and n = "length cs"] assms
  by (auto simp: updateCentroids_def meanColour_def split: prod.splits)

text \<open>
  Claim C6. In the update step (run on points whose \<open>cluster\<close> fields index the
  centroids, as the assignment step leaves them), a centroid to which no point is
  assigned keeps its three channel values, and a centroid with at least one assigned
  point becomes the component-wise mean of its points; the number of centroids does not
  change.
\<close>

theorem update_keeps_empty_centroid:
  "(\<forall>p\<in>set points. cluster p < length centroids) \<Longrightarrow> i < length centroids \<Longrightarrow>
   length (updateCentroids points centroids) = length centroids \<and>
   updateCentroids points centroids ! i =
     (let members = filter (\<lambda>p. cluster p = i) points in
      if members = [] then centroids ! i
      else \<lparr>r = sum_list (map r members) / of_nat (length members),
            g = sum_list (map g members) / of_nat (length members),
            b = sum_list (map b members) / of_nat (length members)\<rparr>)"
  by (simp add: updateCentroids_nth meanColour_def Let_def)

theorem update_keeps_empty_centroid_witness:
  "updateCentroids
     [\<lparr>r = 10, g = 20, b = 30, cluster = 0, distance = Some 0\<rparr>,
      \<lparr>r = 20, g = 40, b = 50, cluster = 0, distance = Some 0\<rparr>]
     [\<lparr>r = 1, g = 2, b = 3\<rparr>, \<lparr>r = 200, g = 100, b = 50\<rparr>] ! 1 = \<lparr>r = 200, g = 100, b = 50\<rparr>
   \<and> updateCentroids
     [\<lparr>r = 10, g = 20, b = 30, cluster = 0, distance = Some 0\<rparr>,
      \<lparr>r = 20, g = 40, b = 50, cluster = 0, distance = Some 0\<rparr>]
     [\<lparr>r = 1, g = 2, b = 3\<rparr>, \<lparr>r = 200, g = 100, b = 50\<rparr>] ! 0 = \<lparr>r = 15, g = 30, b = 40\<rparr>"
  using update_keeps_empty_centroid [of
     "[\<lparr>r = 10, g = 20, b = 30, cluster = 0, distance = Some 0\<rparr>,
      \<lparr>r = 20, g = 40, b = 50, cluster = 0, distance = Some 0\<rparr>]"
     "[\<lparr>r = 1, g = 2, b = 3\<rparr>, \<lparr>r = 200, g = 100, b = 50\<rparr>]" 1]
    update_keeps_empty_centroid [of
     "[\<lparr>r = 10, g = 20, b = 30, cluster = 0, distance = Some 0\<rparr>,
      \<lparr>r = 20, g = 40, b = 50, cluster = 0, distance = Some 0\<rparr>]"
     "[\<lparr>r = 1, g = 2, b = 3\<rparr>, \<lparr>r = 200, g = 100, b = 50\<rparr>]" 0]
  by simp

section \<open>Centroids stay within the channel range\<close>

lemma sum_list_channel_bounds:
  fixes f :: "Point \<Rightarrow> real"
  assumes "\<forall>p\<in>set ms. 0 \<le> f p \<and> f p \<le> 255"
  shows "0 \<le> sum_list (map f ms) \<and> sum_list (map f ms) \<le> 255 * of_nat (length ms)"
  using assms by (induction ms) (auto simp: algebra_simps)

lemma mean_channel_bounds:
  fixes f :: "Point \<Rightarrow> real"
  assumes "ms \<noteq> []" and "\<forall>p\<in>set ms. 0 \<le> f p \<and> f p \<le> 255"
  shows "0 \<le> sum_list (map f ms) / of_nat (length ms)"
    and "sum_list (map f ms) / of_nat (length ms) \<le> 255"
proof -
  from assms(1) have pos: "0 < (of_nat (length ms) :: real)" by simp
  from sum_list_channel_bounds [OF assms(2)]
  show "0 \<le> sum_list (map f ms) / of_nat (length ms)" by simp
  from sum_list_channel_bounds [OF assms(2)] pos
  show "sum_list (map f ms) / of_nat (length ms) \<le> 255"
    by (simp add: pos_divide_le_eq)
qed

lemma meanColour_inRange:
  assumes "ms \<noteq> []" and "\<forall>p\<in>set ms. inRange p"
  shows "inRange (meanColour ms)"
proof -
  have rr: "\<forall>p\<in>set ms. 0 \<le> r p \<and> r p \<le> 255"
    and gg: "\<forall>p\<in>set ms. 0 \<le> g p \<and> g p \<le> 255"
    and bb: "\<forall>p\<in>set ms. 0 \<le> b p \<and> b p \<le> 255"
    using assms(2) by (simp_all add: inRange_def)
  from mean_channel_bounds [OF assms(1) rr] mean_channel_bounds [OF assms(1) gg]
    mean_channel_bounds [OF assms(1) bb]
  show ?thesis by (simp add: inRange_def meanColour_def)
qed

lemma updateCentroids_inRange:
  assumes "\<forall>p\<in>set ps. inRange p" and "\<forall>c\<in>set cs. inRange c"
  shows "\<forall>c\<in>set (updateCentroids ps cs). inRange c"
proof -
  have "inRange (updateCentroids ps cs ! i)" if i: "i < length cs" for i
  proof (cases "filter (\<lambda>p. cluster p = i) ps = []")
    case True
    with i assms(2) show ?thesis by (simp add: updateCentroids_nth)
  next
    case False
    have "\<forall>p\<in>set (filter (\<lambda>p. cluster p = i) ps). inRange p" using assms(1) by simp
    from meanColour_inRange [OF False this] False i show ?thesis
      by (simp add: updateCentroids_nth)
  qed
  then show ?thesis by (auto simp: in_set_conv_nth)
qed

lemma assigned_inRange [simp]: "inRange (assigned cs p) = inRange p"
  by (simp add: assigned_def inRange_def)

lemma colourOf_inRange [simp]: "inRange (colourOf p) = inRange p"
  by (simp add: colourOf_def inRange_def)

lemma iterate_inRange:
  "\<forall>p\<in>set ps. inRange p \<Longrightarrow> \<forall>c\<in>set cs. inRange c \<Longrightarrow> iterate n ps cs = (ps', cs') \<Longrightarrow>
   (\<forall>c\<in>set cs'. inRange c) \<and> (\<forall>p\<in>set ps'. inRange p)"
proof (induction n arbitrary: ps cs)
  case 0
  then show ?case by simp
next
  case (Suc n)
  obtain ps1 h where a: "assignStep cs ps False = (ps1, h)" by (cases "assignStep cs ps False")
  then have ps1: "ps1 = map (assigned cs) ps" using assignStep_fst [of cs ps False] by simp
  then have r1: "\<forall>p\<in>set ps1. inRange p" using Suc.prems(1) by simp
  show ?case
  proof (cases h)
    case True
    with Suc.prems(3) a have "iterate n ps1 (updateCentroids ps1 cs) = (ps', cs')" by simp
    from Suc.IH [OF r1 updateCentroids_inRange [OF r1 Suc.prems(2)] this] show ?thesis .
  next
    case False
    with Suc.prems(3) a have "ps' = ps1" "cs' = cs" by simp_all
    with r1 Suc.prems(2) show ?thesis by simp
  qed
qed

lemma seedLoop_inRange:
  assumes "\<forall>p\<in>set points. inRange p" and "inRange c"
  shows "\<forall>x\<in>set (seedLoop random points k i c []). inRange x"
  using seedLoop_set [of random points k i c "[]"] assms by auto

text \<open>
  Claim C9. When the channels of every sample lie in \<open>[0, 255]\<close>, so do the channels of
  every centroid \<open>kMeans\<close> returns, for every iteration budget: with budget \<open>0\<close> these
  are the seeds, with budget \<open>n\<close> the centroids after at most \<open>n\<close> refinement
  iterations. The samples themselves keep their channels.
\<close>

theorem centroids_stay_in_range:
  "\<forall>p\<in>set points. inRange p \<Longrightarrow>
   kMeans random points k maxIterations = Inr (points', centroids) \<Longrightarrow>
   (\<forall>c\<in>set centroids. inRange c) \<and> (\<forall>p\<in>set points'. inRange p)"
proof -
  assume pts: "\<forall>p\<in>set points. inRange p"
    and km: "kMeans random points k maxIterations = Inr (points', centroids)"
  show ?thesis
  proof (cases "points = []")
    case True
    with km have "iterate maxIterations [] [] = (points', centroids)"
      by (simp add: kMeans_def)
    from iterate_inRange [OF _ _ this] show ?thesis by simp
  next
    case False
    define j where "j = \<lfloor>random 0 * real (length points)\<rfloor>"
    from km False have j: "0 \<le> j" "j < int (length points)"
      by (auto simp: kMeans_def j_def Let_def split: if_splits)
    then have "points ! nat j \<in> set points" by simp
    with pts have first: "inRange (colourOf (points ! nat j))" by simp
    from km False j have "iterate maxIterations points
        (seedLoop random points k 1 (colourOf (points ! nat j)) []) = (points', centroids)"
      by (simp add: kMeans_def j_def Let_def)
    from iterate_inRange [OF pts seedLoop_inRange [OF pts first] this] show ?thesis .
  qed
qed

theorem centroids_stay_in_range_witness:
  "list_all inRange [\<lparr>r = 0, g = 0, b = 0, cluster = 0, distance = Some 0\<rparr>,
              \<lparr>r = 255, g = 255, b = 255, cluster = 0, distance = Some 0\<rparr>,
              \<lparr>r = 10, g = 0, b = 0, cluster = 0, distance = Some 0\<rparr>] \<and>
   kMeans (\<lambda>i. 1 / 2) [\<lparr>r = 0, g = 0, b = 0, cluster = 0, distance = Some 0\<rparr>,
              \<lparr>r = 255, g = 255, b = 255, cluster = 0, distance = Some 0\<rparr>,
              \<lparr>r = 10, g = 0, b = 0, cluster = 0, distance = Some 0\<rparr>] (Fin 2) 100 =
     Inr ([\<lparr>r = 0, g = 0, b = 0, cluster = 1, distance = Some 25\<rparr>,
           \<lparr>r = 255, g = 255, b = 255, cluster = 0, distance = Some 0\<rparr>,
           \<lparr>r = 10, g = 0, b = 0, cluster = 1, distance = Some 25\<rparr>],
          [\<lparr>r = 255, g = 255, b = 255\<rparr>, \<lparr>r = 5, g = 0, b = 0\<rparr>]) \<and>
   list_all inRange [\<lparr>r = 255, g = 255, b = 255\<rparr>, \<lparr>r = 5, g = 0, b = 0\<rparr>]"
proof -
  have km: "kMeans (\<lambda>i. 1 / 2) [\<lparr>r = 0, g = 0, b = 0, cluster = 0, distance = Some 0\<rparr>,
              \<lparr>r = 255, g = 255, b = 255, cluster = 0, distance = Some 0\<rparr>,
              \<lparr>r = 10, g = 0, b = 0, cluster = 0, distance = Some 0\<rparr>] (Fin 2) 100 =
     Inr ([\<lparr>r = 0, g = 0, b = 0, cluster = 1, distance = Some 25\<rparr>,
           \<lparr>r = 255, g = 255, b = 255, cluster = 0, distance = Some 0\<rparr>,
           \<lparr>r = 10, g = 0, b = 0, cluster = 1, distance = Some 25\<rparr>],
          [\<lparr>r = 255, g = 255, b = 255\<rparr>, \<lparr>r = 5, g = 0, b = 0\<rparr>])"
    by code_simp
  have pts: "\<forall>p\<in>set [\<lparr>r = 0, g = 0, b = 0, cluster = 0, distance = Some 0\<rparr>,
              \<lparr>r = 255, g = 255, b = 255, cluster = 0, distance = Some 0\<rparr>,
              \<lparr>r = 10, g = 0, b = 0, cluster = 0, distance = Some 0\<rparr>]. inRange p"
    by (simp add: inRange_def)
  from centroids_stay_in_range [OF pts km] pts km show ?thesis
    by (simp only: list_all_iff) blast
qed

section \<open>Invariants of the iteration\<close>

lemma iterate_length:
  "iterate n ps cs = (ps', cs') \<Longrightarrow> length ps' = length ps \<and> length cs' = length cs"
proof (induction n arbitrary: ps cs)
  case 0
  then show ?case by simp
next
  case (Suc n)
  obtain ps1 h where a: "assignStep cs ps False = (ps1, h)" by (cases "assignStep cs ps False")
  then have ps1: "ps1 = map (assigned cs) ps" using assignStep_fst [of cs ps False] by simp
  show ?case
  proof (cases h)
    case True
    with Suc.prems a have "iterate n ps1 (updateCentroids ps1 cs) = (ps', cs')" by simp
    from Suc.IH [OF this] ps1 show ?thesis by simp
  next
    case False
    with Suc.prems a have "ps' = ps1" "cs' = cs" by simp_all
    with ps1 show ?thesis by simp
  qed
qed

lemma colourwise_assigned: "colourwise (map (assigned cs) ps)"
  unfolding colourwise_def
proof (intro ballI impI)
  fix p q
  assume "p \<in> set (map (assigned cs) ps)" and "q \<in> set (map (assigned cs) ps)"
    and c: "colourOf p = colourOf q"
  then obtain p0 q0 where p: "p = assigned cs p0" and q: "q = assigned cs q0"
    by auto
  from c have "colourOf p0 = colourOf q0" unfolding p q by simp
  then show "cluster p = cluster q" unfolding p q by (rule assigned_same_cluster)
qed

lemma iterate_clusters:
  assumes "cs \<noteq> []"
    and "\<forall>p\<in>set ps. cluster p < length cs"
    and "colourwise ps"
    and "iterate n ps cs = (ps', cs')"
  shows "(\<forall>p\<in>set ps'. cluster p < length cs') \<and> colourwise ps' \<and>
         map colourOf ps' = map colourOf ps"
  using assms
proof (induction n arbitrary: ps cs)
  case 0
  then show ?case by simp
next
  case (Suc n)
  obtain ps1 h where a: "assignStep cs ps False = (ps1, h)" by (cases "assignStep cs ps False")
  then have ps1: "ps1 = map (assigned cs) ps" using assignStep_fst [of cs ps False] by simp
  have lt: "\<forall>p\<in>set ps1. cluster p < length cs"
    using Suc.prems(1) by (auto simp: ps1 assigned_cluster_lt)
  have same: "colourwise ps1" unfolding ps1 by (rule colourwise_assigned)
  have col: "map colourOf ps1 = map colourOf ps" by (simp add: ps1)
  show ?case
  proof (cases h)
    case True
    with Suc.prems(4) a have it: "iterate n ps1 (updateCentroids ps1 cs) = (ps', cs')" by simp
    have "length (updateCentroids ps1 cs) \<noteq> 0" using Suc.prems(1) by simp
    then have ne: "updateCentroids ps1 cs \<noteq> []" by (simp del: updateCentroids_length)
    have lt': "\<forall>p\<in>set ps1. cluster p < length (updateCentroids ps1 cs)" using lt by simp
    from Suc.IH [OF ne lt' same it] col show ?thesis by simp
  next
    case False
    with Suc.prems(4) a have "ps' = ps1" "cs' = cs" by simp_all
    with lt same col show ?thesis by simp
  qed
qed

lemma collectPoints_cluster: "p \<in> set (collectPoints data) \<Longrightarrow> cluster p = 0"
  by (induction data rule: collectPoints.induct) (auto split: if_splits)

lemma byte_bounds:
  fixes w :: "8 word"
  shows "0 \<le> (unsigned w :: real)" and "(unsigned w :: real) \<le> 255"
proof -
  have "unat w < 256" using unsigned_less [of w] by simp
  then have "real (unat w) \<le> 255" by linarith
  then show "(unsigned w :: real) \<le> 255" by simp
  have "0 \<le> real (unat w)" by linarith
  then show "0 \<le> (unsigned w :: real)" by simp
qed

lemma collectPoints_inRange: "p \<in> set (collectPoints data) \<Longrightarrow> inRange p"
  by (induction data rule: collectPoints.induct)
     (auto simp: inRange_def byte_bounds split: if_splits)

section \<open>Properties of the sort\<close>

lemma set_insertSorted [simp]: "set (insertSorted x xs) = insert x (set xs)"
  by (induction xs) auto

lemma set_sortEntries [simp]: "set (sortEntries xs) = set xs"
  by (induction xs) (simp_all add: sortEntries_def)

lemma length_insertSorted [simp]: "length (insertSorted x xs) = Suc (length xs)"
  by (induction xs) auto

lemma length_sortEntries [simp]: "length (sortEntries xs) = length xs"
  by (induction xs) (simp_all add: sortEntries_def)

lemma sum_insertSorted:
  "sum_list (map f (insertSorted x xs)) = (f x :: nat) + sum_list (map f xs)"
  by (induction xs) auto

lemma sum_sortEntries: "sum_list (map f (sortEntries xs)) = (sum_list (map f xs) :: nat)"
  by (induction xs) (simp_all add: sortEntries_def sum_insertSorted)

lemma compareFn_good:
  assumes "goodEntry n x" and "goodEntry n y"
  shows "compareFn x y \<le> 0 \<longleftrightarrow> countNat y \<le> countNat x"
proof -
  from assms have "count x = Num (of_nat (countNat x))" "count y = Num (of_nat (countNat y))"
    by (simp_all add: goodEntry_def)
  then show ?thesis by (simp add: compareFn_def)
qed

lemma insertSorted_sorted:
  assumes "goodEntry n x" and "\<forall>e\<in>set xs. goodEntry n e"
    and "sorted_wrt (\<lambda>u v. countNat v \<le> countNat u) xs"
  shows "sorted_wrt (\<lambda>u v. countNat v \<le> countNat u) (insertSorted x xs)"
  using assms(2,3)
proof (induction xs)
  case Nil
  then show ?case by simp
next
  case (Cons y ys)
  have y: "goodEntry n y" using Cons.prems(1) by simp
  show ?case
  proof (cases "compareFn x y \<le> 0")
    case True
    then have "countNat y \<le> countNat x" using compareFn_good [OF assms(1) y] by simp
    moreover have "\<forall>e\<in>set ys. countNat e \<le> countNat y" using Cons.prems(2) by simp
    ultimately have "\<forall>e\<in>set (y # ys). countNat e \<le> countNat x" by auto
    with True Cons.prems(2) show ?thesis by simp
  next
    case False
    then have "countNat x \<le> countNat y" using compareFn_good [OF assms(1) y] by simp
    moreover have "sorted_wrt (\<lambda>u v. countNat v \<le> countNat u) (insertSorted x ys)"
      using Cons by simp
    ultimately show ?thesis using False Cons.prems(2) by auto
  qed
qed

lemma sortEntries_sorted:
  "\<forall>e\<in>set xs. goodEntry n e \<Longrightarrow> sorted_wrt (\<lambda>u v. countNat v \<le> countNat u) (sortEntries xs)"
proof (induction xs)
  case Nil
  then show ?case by (simp add: sortEntries_def)
next
  case (Cons x xs)
  then have "sorted_wrt (\<lambda>u v. countNat v \<le> countNat u) (sortEntries xs)" by simp
  moreover have "\<forall>e\<in>set (sortEntries xs). goodEntry n e" using Cons.prems by simp
  ultimately have "sorted_wrt (\<lambda>u v. countNat v \<le> countNat u) (insertSorted x (sortEntries xs))"
    using Cons.prems by (intro insertSorted_sorted [of n]) simp_all
  then show ?case by (simp add: sortEntries_def)
qed

section \<open>Properties of the count array\<close>

lemma validCount_mono: "validCount n x \<Longrightarrow> n \<le> m \<Longrightarrow> validCount m x"
  by (auto simp: validCount_def)

lemma validCount_plusOne: "validCount n x \<Longrightarrow> validCount (Suc n) (plusOne x)"
proof (cases x)
  case (Num v)
  assume "validCount n x"
  with Num obtain m where "m \<le> n" "v = of_nat m" by (auto simp: validCount_def)
  then have "plusOne x = Num (of_nat (Suc m))" "Suc m \<le> Suc n" using Num by simp_all
  then show ?thesis unfolding validCount_def by blast
qed (simp_all add: validCount_def)

lemma increment_valid:
  assumes "\<forall>x\<in>set xs. validCount n x"
  shows "\<forall>x\<in>set (increment c xs). validCount (Suc n) x"
proof (cases "c < length xs")
  case True
  have "validCount (Suc n) (plusOne (xs ! c))"
    using assms True by (intro validCount_plusOne) simp
  moreover have "\<forall>x\<in>set xs. validCount (Suc n) x"
    using assms by (auto intro: validCount_mono)
  ultimately show ?thesis using True
    by (auto simp: increment_def dest!: set_update_subset_insert [THEN subsetD])
next
  case False
  have "\<forall>x\<in>set xs. validCount (Suc n) x"
    using assms by (auto intro: validCount_mono)
  with False show ?thesis by (auto simp: increment_def validCount_def)
qed

lemma fold_increment_valid:
  "\<forall>x\<in>set xs. validCount n x \<Longrightarrow>
   \<forall>x\<in>set (fold (\<lambda>point. increment (cluster point)) ps xs). validCount (n + length ps) x"
proof (induction ps arbitrary: xs n)
  case Nil
  then show ?case by simp
next
  case (Cons p ps)
  from Cons.IH [OF increment_valid [OF Cons.prems, of "cluster p"]] show ?case by simp
qed

lemma readAt_valid:
  "\<forall>x\<in>set xs. validCount n x \<Longrightarrow> validCount n (readAt xs i)"
  by (simp add: readAt_def validCount_def)

lemma positive_valid_good:
  assumes "validCount n (count e)" and "positive (count e)"
    and "percentage e = percentOf (count e) n"
  shows "goodEntry n e"
proof -
  from assms(1,2) obtain m where m: "m \<le> n" "count e = Num (of_nat m)"
    by (auto simp: validCount_def)
  with assms(2) have "0 < m" by simp
  moreover have "countNat e = m" using m by (simp add: countNat_def)
  ultimately show ?thesis using m assms(3) by (simp add: goodEntry_def)
qed

section \<open>Shape of a resolved palette\<close>

lemma goodEntry_percentage:
  assumes "goodEntry n e"
  shows "\<exists>q. percentage e = Num q \<and> 0 \<le> q \<and> q \<le> 100"
proof -
  let ?m = "countNat e"
  from assms have m: "0 < ?m" "?m \<le> n" and p: "percentage e = Num (of_nat ?m / of_nat n * 100)"
    by (simp_all add: goodEntry_def)
  from m have n: "0 < (of_nat n :: real)" by simp
  from m have "(of_nat ?m :: real) \<le> of_nat n" by simp
  then have "(of_nat ?m :: real) * 100 \<le> 100 * of_nat n" by simp
  with n have "(of_nat ?m :: real) * 100 / of_nat n \<le> 100" by (simp only: pos_divide_le_eq)
  then have "(of_nat ?m :: real) / of_nat n * 100 \<le> 100" by simp
  moreover have "0 \<le> (of_nat ?m :: real) / of_nat n * 100" by simp
  ultimately show ?thesis using p by blast
qed

lemma good_palette:
  assumes "\<forall>e\<in>set xs. goodEntry n e"
  shows "map count (sortEntries xs) = map (\<lambda>m. Num (of_nat m)) (map countNat (sortEntries xs))"
    and "sorted_wrt (\<lambda>u v. v \<le> u) (map countNat (sortEntries xs))"
    and "\<forall>m\<in>set (map countNat (sortEntries xs)). 0 < m"
    and "\<forall>e\<in>set (sortEntries xs). \<exists>q. percentage e = Num q \<and> 0 \<le> q \<and> q \<le> 100"
proof -
  have all: "\<forall>e\<in>set (sortEntries xs). goodEntry n e" using assms by simp
  then show "map count (sortEntries xs) = map (\<lambda>m. Num (of_nat m)) (map countNat (sortEntries xs))"
    by (simp add: goodEntry_def)
  show "sorted_wrt (\<lambda>u v. v \<le> u) (map countNat (sortEntries xs))"
    using sortEntries_sorted [OF assms] by (simp add: sorted_wrt_map)
  from all show "\<forall>m\<in>set (map countNat (sortEntries xs)). 0 < m"
    by (simp add: goodEntry_def)
  from all show "\<forall>e\<in>set (sortEntries xs). \<exists>q. percentage e = Num q \<and> 0 \<le> q \<and> q \<le> 100"
    using goodEntry_percentage by blast
qed

lemma newArray_valid: "newArray k = Inr zeros \<Longrightarrow> \<forall>x\<in>set zeros. validCount 0 x"
  by (cases k) (auto simp: validCount_def split: if_splits)

lemma entries_good:
  assumes "\<forall>x\<in>set cc. validCount n x"
  shows "\<forall>e\<in>set (filter (\<lambda>e. positive (count e))
           (map (\<lambda>(centroid, index).
                   \<lparr>color = rgbToHex (r centroid) (g centroid) (b centroid),
                    count = readAt cc index,
                    percentage = percentOf (readAt cc index) n\<rparr>)
                (zip cs [0..<length cs]))). goodEntry n e"
proof -
  have "goodEntry n \<lparr>color = col, count = readAt cc i, percentage = percentOf (readAt cc i) n\<rparr>"
    if "positive (readAt cc i)" for col i
    using readAt_valid [OF assms, of i] that by (intro positive_valid_good) simp_all
  then show ?thesis by auto
qed

lemma extractColors_cases:
  assumes "extractColors random data colorCount = Resolved palette"
  shows "palette = fallback \<or>
    (\<exists>n xs. (\<forall>e\<in>set xs. goodEntry n e) \<and> palette = sortEntries xs)"
proof (cases "collectPoints data = []")
  case True
  with assms show ?thesis by (simp add: extractColors_def)
next
  case False
  let ?k = "mathMin colorCount (length (collectPoints data))"
  from assms False obtain ps' cs' zeros where
    km: "kMeans random (collectPoints data) ?k maxIterationsDefault = Inr (ps', cs')"
    and na: "newArray ?k = Inr zeros"
    and pal: "palette = sortEntries (filter (\<lambda>e. positive (count e))
           (map (\<lambda>(centroid, index).
                   \<lparr>color = rgbToHex (r centroid) (g centroid) (b centroid),
                    count = readAt (fold (\<lambda>point. increment (cluster point)) ps' zeros) index,
                    percentage = percentOf
                      (readAt (fold (\<lambda>point. increment (cluster point)) ps' zeros) index)
                      (length ps')\<rparr>)
                (zip cs' [0..<length cs'])))"
    by (auto simp: extractColors_def Let_def split: sum.splits prod.splits)
  have "\<forall>x\<in>set (fold (\<lambda>point. increment (cluster point)) ps' zeros).
      validCount (length ps') x"
    using fold_increment_valid [OF newArray_valid [OF na], of ps'] by simp
  from entries_good [OF this] pal show ?thesis by blast
qed

text \<open>
  Claim C7. Every palette \<open>extractColors\<close> resolves with is sorted by non-increasing
  count; every entry's count is a positive whole number, and every percentage is a
  number in \<open>[0, 100]\<close>.
\<close>

theorem palette_sorted_positive:
  "extractColors random data colorCount = Resolved palette \<Longrightarrow>
   \<exists>ns :: nat list. map count palette = map (\<lambda>m. Num (of_nat m)) ns \<and>
      sorted_wrt (\<lambda>u v. v \<le> u) ns \<and> (\<forall>m\<in>set ns. 0 < m) \<and>
      (\<forall>e\<in>set palette. \<exists>q. percentage e = Num q \<and> 0 \<le> q \<and> q \<le> 100)"
proof -
  assume "extractColors random data colorCount = Resolved palette"
  from extractColors_cases [OF this] show ?thesis
  proof
    assume "palette = fallback"
    then have "map count palette = map (\<lambda>m. Num (of_nat m)) [1::nat]"
      and "\<forall>e\<in>set palette. \<exists>q. percentage e = Num q \<and> 0 \<le> q \<and> q \<le> 100"
      by (simp_all add: fallback_def)
    moreover have "sorted_wrt (\<lambda>u v. v \<le> u) [1::nat]" "\<forall>m\<in>set [1::nat]. 0 < m" by simp_all
    ultimately show ?thesis by blast
  next
    assume "\<exists>n xs. (\<forall>e\<in>set xs. goodEntry n e) \<and> palette = sortEntries xs"
    then obtain n xs where g: "\<forall>e\<in>set xs. goodEntry n e" and p: "palette = sortEntries xs"
      by blast
    from good_palette [OF g] show ?thesis unfolding p by blast
  qed
qed

theorem palette_sorted_positive_witness:
  "extractColors (\<lambda>i. 1 / 2)
     [0, 0, 0, 255, 255, 255, 255, 255, 10, 10, 10, 255, 250, 0, 0, 10, 10, 10, 10, 128] (Fin 2) =
   Resolved [\<lparr>color = ''#070707'', count = Num 3, percentage = Num 75\<rparr>,
             \<lparr>color = ''#FFFFFF'', count = Num 1, percentage = Num 25\<rparr>] \<and>
   (\<exists>ns :: nat list.
      map count [\<lparr>color = ''#070707'', count = Num 3, percentage = Num 75\<rparr>,
                 \<lparr>color = ''#FFFFFF'', count = Num 1, percentage = Num 25\<rparr>] =
        map (\<lambda>m. Num (of_nat m)) ns \<and>
      sorted_wrt (\<lambda>u v. v \<le> u) ns \<and> (\<forall>m\<in>set ns. 0 < m) \<and>
      (\<forall>e\<in>set [\<lparr>color = ''#070707'', count = Num 3, percentage = Num 75\<rparr>,
                 \<lparr>color = ''#FFFFFF'', count = Num 1, percentage = Num 25\<rparr>].
          \<exists>q. percentage e = Num q \<and> 0 \<le> q \<and> q \<le> 100))"
proof -
  have e: "extractColors (\<lambda>i. 1 / 2)
     [0, 0, 0, 255, 255, 255, 255, 255, 10, 10, 10, 255, 250, 0, 0, 10, 10, 10, 10, 128] (Fin 2) =
   Resolved [\<lparr>color = ''#070707'', count = Num 3, percentage = Num 75\<rparr>,
             \<lparr>color = ''#FFFFFF'', count = Num 1, percentage = Num 25\<rparr>]"
    by code_simp
  from palette_sorted_positive [OF e] e show ?thesis by blast
qed

section \<open>Exact counts when the count array matches the centroids\<close>

lemma increment_map:
  assumes "c < k"
  shows "increment c (map (\<lambda>i. Num (of_nat (f i))) [0..<k]) =
     map (\<lambda>i. Num (of_nat (f i + (if c = i then 1 else 0)))) [0..<k]"
  using assms by (auto simp: increment_def intro!: nth_equalityI simp: nth_list_update)

lemma fold_increment_exact:
  "\<forall>p\<in>set ps. cluster p < k \<Longrightarrow>
   fold (\<lambda>point. increment (cluster point)) ps (map (\<lambda>i. Num (of_nat (f i))) [0..<k]) =
     map (\<lambda>i. Num (of_nat (f i + length (filter (\<lambda>p. cluster p = i) ps)))) [0..<k]"
proof (induction ps arbitrary: f)
  case Nil
  then show ?case by simp
next
  case (Cons p ps)
  have c: "cluster p < k" using Cons.prems by simp
  have "fold (\<lambda>point. increment (cluster point)) (p # ps) (map (\<lambda>i. Num (of_nat (f i))) [0..<k]) =
      fold (\<lambda>point. increment (cluster point)) ps
        (map (\<lambda>i. Num (of_nat (f i + (if cluster p = i then 1 else 0)))) [0..<k])"
    by (simp add: increment_map [OF c])
  also have "\<dots> = map (\<lambda>i. Num (of_nat ((f i + (if cluster p = i then 1 else 0)) +
      length (filter (\<lambda>p. cluster p = i) ps)))) [0..<k]"
    using Cons.prems by (intro Cons.IH) simp
  also have "\<dots> = map (\<lambda>i. Num (of_nat (f i + length (filter (\<lambda>q. cluster q = i) (p # ps))))) [0..<k]"
    by auto
  finally show ?case .
qed

lemma clusterCounts_exact:
  assumes "\<forall>p\<in>set ps. cluster p < k"
  shows "fold (\<lambda>point. increment (cluster point)) ps (replicate k (Num 0)) =
     map (\<lambda>i. Num (of_nat (length (filter (\<lambda>p. cluster p = i) ps)))) [0..<k]"
proof -
  have "replicate k (Num 0) = map (\<lambda>i. Num (of_nat ((\<lambda>i. 0) i))) [0..<k]"
    by (simp add: map_replicate_const)
  then show ?thesis using fold_increment_exact [OF assms, of "\<lambda>i. 0"] by simp
qed

lemma sum_cluster_sizes:
  "\<forall>p\<in>set ps. cluster p < k \<Longrightarrow>
   (\<Sum>i\<leftarrow>[0..<k]. length (filter (\<lambda>p. cluster p = i) ps)) = length ps"
proof (induction ps)
  case Nil
  then show ?case by simp
next
  case (Cons p ps)
  have c: "cluster p < k" using Cons.prems by simp
  have one: "(\<Sum>i\<leftarrow>[0..<k]. if cluster p = i then 1 else 0) = (1::nat)"
    using c by (simp add: sum_list_distinct_conv_sum_set)
  have "(\<Sum>i\<leftarrow>[0..<k]. length (filter (\<lambda>q. cluster q = i) (p # ps))) =
      (\<Sum>i\<leftarrow>[0..<k]. (if cluster p = i then 1 else 0) + length (filter (\<lambda>q. cluster q = i) ps))"
    by (intro arg_cong [of _ _ sum_list] map_cong) auto
  also have "\<dots> = (\<Sum>i\<leftarrow>[0..<k]. if cluster p = i then 1 else 0) +
      (\<Sum>i\<leftarrow>[0..<k]. length (filter (\<lambda>q. cluster q = i) ps))"
    by (simp add: sum_list_addf)
  also have "\<dots> = Suc (length ps)" using one Cons by simp
  finally show ?case by simp
qed

lemma zip_index_map:
  "map (\<lambda>(x, i). F x i) (zip xs [0..<length xs]) = map (\<lambda>i. F (xs ! i) i) [0..<length xs]"
  by (intro nth_equalityI) simp_all

lemma nonempty_clusters_card:
  assumes "\<forall>p\<in>set ps. cluster p < k"
  shows "length (filter (\<lambda>i. 0 < length (filter (\<lambda>p. cluster p = i) ps)) [0..<k]) =
     card (cluster ` set ps)"
proof -
  have "set (filter (\<lambda>i. 0 < length (filter (\<lambda>p. cluster p = i) ps)) [0..<k]) = cluster ` set ps"
    using assms by (auto simp: filter_empty_conv)
  moreover have "distinct (filter (\<lambda>i. 0 < length (filter (\<lambda>p. cluster p = i) ps)) [0..<k])"
    by simp
  ultimately show ?thesis by (metis distinct_card)
qed

lemma colourwise_card:
  assumes "colourwise ps"
  shows "card (cluster ` set ps) \<le> card (colourOf ` set ps)"
proof (rule card_le_if_inj_on_rel [where r = "\<lambda>c col. \<exists>p\<in>set ps. cluster p = c \<and> colourOf p = col"])
  show "finite (colourOf ` set ps)" by simp
next
  fix c assume "c \<in> cluster ` set ps"
  then show "\<exists>col. col \<in> colourOf ` set ps \<and> (\<exists>p\<in>set ps. cluster p = c \<and> colourOf p = col)"
    by auto
next
  fix c1 c2 col
  assume "\<exists>p\<in>set ps. cluster p = c1 \<and> colourOf p = col"
    and "\<exists>p\<in>set ps. cluster p = c2 \<and> colourOf p = col"
  with assms show "c1 = c2" unfolding colourwise_def by metis
qed

section \<open>The run of \<open>extractColors\<close> for a requested count of at least one\<close>

lemma firstIndex_in_range:
  assumes "ps \<noteq> []" and "0 \<le> (x::real)" and "x < 1"
  shows "0 \<le> \<lfloor>x * real (length ps)\<rfloor>" and "\<lfloor>x * real (length ps)\<rfloor> < int (length ps)"
proof -
  from assms(1) have n: "0 < real (length ps)" by simp
  from assms(2) show "0 \<le> \<lfloor>x * real (length ps)\<rfloor>" by simp
  from assms(3) n have "x * real (length ps) < 1 * real (length ps)"
    by (intro mult_strict_right_mono)
  then show "\<lfloor>x * real (length ps)\<rfloor> < int (length ps)" by (simp add: floor_less_iff)
qed

lemma kMeans_result:
  assumes ne: "ps \<noteq> []" and z: "\<forall>p\<in>set ps. cluster p = 0"
    and r0: "0 \<le> random 0" "random 0 < 1" and K: "1 \<le> K"
  shows "\<exists>ps' cs'. kMeans random ps (Fin (min K (int (length ps)))) n = Inr (ps', cs') \<and>
           length cs' = nat (min K (int (length ps))) \<and> length ps' = length ps \<and>
           (\<forall>p\<in>set ps'. cluster p < length cs') \<and> colourwise ps' \<and>
           map colourOf ps' = map colourOf ps"
proof -
  define k where "k = min K (int (length ps))"
  define j where "j = \<lfloor>random 0 * real (length ps)\<rfloor>"
  define seeds where "seeds = seedLoop random ps (Fin k) 1 (colourOf (ps ! nat j)) []"
  have k1: "1 \<le> k" using K ne by (simp add: k_def Suc_leI)
  have j: "0 \<le> j" "j < int (length ps)"
    unfolding j_def using firstIndex_in_range [OF ne r0] by simp_all
  have km: "kMeans random ps (Fin k) n = Inr (iterate n ps seeds)"
    using ne j by (simp add: kMeans_def seeds_def j_def [symmetric] Let_def)
  have "length seeds = Suc 0 + (nat (min k (int (length ps))) - 1)"
    unfolding seeds_def by (simp add: seedLoop_length)
  moreover have "min k (int (length ps)) = k" by (simp add: k_def)
  ultimately have len: "length seeds = nat k" using k1 by simp
  then have sne: "seeds \<noteq> []" using k1 by auto
  have lt: "\<forall>p\<in>set ps. cluster p < length seeds" using z len k1 by simp
  have cw: "colourwise ps" using z by (simp add: colourwise_def)
  obtain ps' cs' where it: "iterate n ps seeds = (ps', cs')" by (cases "iterate n ps seeds")
  from iterate_length [OF it] iterate_clusters [OF sne lt cw it] km it len
  show ?thesis unfolding k_def by simp
qed

lemma countNat_Num [simp]:
  "countNat \<lparr>color = col, count = Num (of_nat m), percentage = q\<rparr> = m"
  by (simp add: countNat_def)

lemma extractColors_main:
  assumes ne: "collectPoints data \<noteq> []" and K: "1 \<le> K"
    and r0: "0 \<le> random 0" "random 0 < 1"
  shows "\<exists>ps' (cs' :: RGBColor list). length ps' = length (collectPoints data) \<and>
      (\<forall>p\<in>set ps'. cluster p < nat (min K (int (length (collectPoints data))))) \<and>
      colourwise ps' \<and> map colourOf ps' = map colourOf (collectPoints data) \<and>
      extractColors random data (Fin K) =
        Resolved (sortEntries (filter (\<lambda>e. positive (count e))
          (map (\<lambda>i. \<lparr>color = rgbToHex (r (cs' ! i)) (g (cs' ! i)) (b (cs' ! i)),
                      count = Num (of_nat (length (filter (\<lambda>p. cluster p = i) ps'))),
                      percentage = percentOf
                        (Num (of_nat (length (filter (\<lambda>p. cluster p = i) ps'))))
                        (length ps')\<rparr>)
               [0..<nat (min K (int (length (collectPoints data))))])))"
proof -
  let ?ps = "collectPoints data"
  define k where "k = min K (int (length ?ps))"
  have k1: "1 \<le> k" using K ne by (simp add: k_def Suc_leI)
  have z: "\<forall>p\<in>set ?ps. cluster p = 0" by (simp add: collectPoints_cluster)
  from kMeans_result [where random = random and n = maxIterationsDefault, OF ne z r0 K] obtain ps' cs' where
    km: "kMeans random ?ps (Fin k) maxIterationsDefault = Inr (ps', cs')"
    and lc: "length cs' = nat k" and lp: "length ps' = length ?ps"
    and lt: "\<forall>p\<in>set ps'. cluster p < length cs'" and cw: "colourwise ps'"
    and col: "map colourOf ps' = map colourOf ?ps"
    unfolding k_def by blast
  have na: "newArray (Fin k) = Inr (replicate (nat k) (Num 0))" using k1 by simp
  define cc where "cc = fold (\<lambda>point. increment (cluster point)) ps' (replicate (nat k) (Num 0))"
  have cc: "cc = map (\<lambda>i. Num (of_nat (length (filter (\<lambda>p. cluster p = i) ps')))) [0..<nat k]"
    unfolding cc_def using lt lc by (intro clusterCounts_exact) simp
  have rd: "readAt cc i = Num (of_nat (length (filter (\<lambda>p. cluster p = i) ps')))"
    if "i < nat k" for i
    using that by (simp add: cc readAt_def)
  have "map (\<lambda>(centroid, index).
            \<lparr>color = rgbToHex (r centroid) (g centroid) (b centroid),
             count = readAt cc index,
             percentage = percentOf (readAt cc index) (length ps')\<rparr>)
          (zip cs' [0..<length cs']) =
        map (\<lambda>i. \<lparr>color = rgbToHex (r (cs' ! i)) (g (cs' ! i)) (b (cs' ! i)),
                   count = readAt cc i,
                   percentage = percentOf (readAt cc i) (length ps')\<rparr>)
          [0..<length cs']"
    by (rule zip_index_map)
  also have "\<dots> = map (\<lambda>i. \<lparr>color = rgbToHex (r (cs' ! i)) (g (cs' ! i)) (b (cs' ! i)),
                      count = Num (of_nat (length (filter (\<lambda>p. cluster p = i) ps'))),
                      percentage = percentOf
                        (Num (of_nat (length (filter (\<lambda>p. cluster p = i) ps'))))
                        (length ps')\<rparr>)
               [0..<nat k]"
    unfolding lc by (intro map_cong refl) (simp add: rd)
  finally have entries: "map (\<lambda>(centroid, index).
            \<lparr>color = rgbToHex (r centroid) (g centroid) (b centroid),
             count = readAt cc index,
             percentage = percentOf (readAt cc index) (length ps')\<rparr>)
          (zip cs' [0..<length cs']) =
     map (\<lambda>i. \<lparr>color = rgbToHex (r (cs' ! i)) (g (cs' ! i)) (b (cs' ! i)),
                      count = Num (of_nat (length (filter (\<lambda>p. cluster p = i) ps'))),
                      percentage = percentOf
                        (Num (of_nat (length (filter (\<lambda>p. cluster p = i) ps'))))
                        (length ps')\<rparr>)
               [0..<nat k]" .
  have ex: "extractColors random data (Fin K) =
      Resolved (sortEntries (filter (\<lambda>e. positive (count e))
        (map (\<lambda>(centroid, index).
            \<lparr>color = rgbToHex (r centroid) (g centroid) (b centroid),
             count = readAt cc index,
             percentage = percentOf (readAt cc index) (length ps')\<rparr>)
          (zip cs' [0..<length cs']))))"
    using ne km na by (simp add: extractColors_def Let_def k_def [symmetric] cc_def)
  have lt': "\<forall>p\<in>set ps'. cluster p < nat k" using lt lc by simp
  have c2: "\<forall>p\<in>set ps'. cluster p < nat (min K (int (length ?ps)))"
    using lt' unfolding k_def .
  have c5: "extractColors random data (Fin K) =
        Resolved (sortEntries (filter (\<lambda>e. positive (count e))
          (map (\<lambda>i. \<lparr>color = rgbToHex (r (cs' ! i)) (g (cs' ! i)) (b (cs' ! i)),
                      count = Num (of_nat (length (filter (\<lambda>p. cluster p = i) ps'))),
                      percentage = percentOf
                        (Num (of_nat (length (filter (\<lambda>p. cluster p = i) ps'))))
                        (length ps')\<rparr>)
               [0..<nat (min K (int (length ?ps)))])))"
    using ex by (simp only: entries k_def)
  show ?thesis
    apply (rule exI [where x = ps'])
    apply (rule exI [where x = cs'])
    apply (intro conjI)
        apply (rule lp)
       apply (rule c2)
      apply (rule cw)
     apply (rule col)
    apply (rule c5)
    done
qed

lemma entries_counts:
  fixes E :: "nat \<Rightarrow> ColorData" and sz :: "nat \<Rightarrow> nat" and k :: nat
  assumes E: "\<And>i. count (E i) = Num (of_nat (sz i))"
    and P: "palette = sortEntries (filter (\<lambda>e. positive (count e)) (map E [0..<k]))"
  shows "map count palette = map (\<lambda>m. Num (of_nat m)) (map countNat palette)"
    and "sum_list (map countNat palette) = sum_list (map sz [0..<k])"
    and "length palette = length (filter (\<lambda>i. 0 < sz i) [0..<k])"
proof -
  note palette_def = P
  have cn: "countNat (E i) = sz i" for i by (simp add: countNat_def E)
  have pos: "positive (count (E i)) \<longleftrightarrow> 0 < sz i" for i by (simp add: E)
  have "count e = Num (of_nat (countNat e))" if "e \<in> set palette" for e
  proof -
    from that obtain i where "e = E i" by (auto simp: palette_def)
    then show ?thesis by (simp add: cn E)
  qed
  then show "map count palette = map (\<lambda>m. Num (of_nat m)) (map countNat palette)" by simp
  have "sum_list (map countNat palette) =
      sum_list (map countNat (filter (\<lambda>e. positive (count e)) (map E [0..<k])))"
    unfolding palette_def by (rule sum_sortEntries)
  also have "\<dots> = sum_list (map countNat (map E [0..<k]))"
  proof (rule sum_list_map_filter)
    fix e assume "e \<in> set (map E [0..<k])" and n: "\<not> positive (count e)"
    then obtain i where "e = E i" by auto
    with n show "countNat e = 0" by (simp add: cn pos)
  qed
  also have "\<dots> = sum_list (map sz [0..<k])" by (simp add: comp_def cn)
  finally show "sum_list (map countNat palette) = sum_list (map sz [0..<k])" .
  show "length palette = length (filter (\<lambda>i. 0 < sz i) [0..<k])"
    by (simp add: palette_def filter_map comp_def pos)
qed

lemma extractColors_palette:
  assumes ne: "collectPoints data \<noteq> []" and K: "1 \<le> K"
    and r0: "0 \<le> random 0" "random 0 < 1"
  shows "\<exists>ps' E. length ps' = length (collectPoints data) \<and>
      (\<forall>p\<in>set ps'. cluster p < nat (min K (int (length (collectPoints data))))) \<and>
      colourwise ps' \<and> map colourOf ps' = map colourOf (collectPoints data) \<and>
      (\<forall>i. count (E i) = Num (of_nat (length (filter (\<lambda>p. cluster p = i) ps')))) \<and>
      extractColors random data (Fin K) =
        Resolved (sortEntries (filter (\<lambda>e. positive (count e))
          (map E [0..<nat (min K (int (length (collectPoints data))))])))"
proof -
  from extractColors_main [where random = random, OF ne K r0]
  obtain ps' and cs' :: "RGBColor list" where all:
    "length ps' = length (collectPoints data) \<and>
      (\<forall>p\<in>set ps'. cluster p < nat (min K (int (length (collectPoints data))))) \<and>
      colourwise ps' \<and> map colourOf ps' = map colourOf (collectPoints data) \<and>
      extractColors random data (Fin K) =
        Resolved (sortEntries (filter (\<lambda>e. positive (count e))
          (map (\<lambda>i. \<lparr>color = rgbToHex (r (cs' ! i)) (g (cs' ! i)) (b (cs' ! i)),
                      count = Num (of_nat (length (filter (\<lambda>p. cluster p = i) ps'))),
                      percentage = percentOf
                        (Num (of_nat (length (filter (\<lambda>p. cluster p = i) ps'))))
                        (length ps')\<rparr>)
               [0..<nat (min K (int (length (collectPoints data))))])))"
    by (elim exE)
  show ?thesis
    apply (rule exI [where x = ps'])
    apply (rule exI [where x = "\<lambda>i. \<lparr>color = rgbToHex (r (cs' ! i)) (g (cs' ! i)) (b (cs' ! i)),
                      count = Num (of_nat (length (filter (\<lambda>p. cluster p = i) ps'))),
                      percentage = percentOf
                        (Num (of_nat (length (filter (\<lambda>p. cluster p = i) ps'))))
                        (length ps')\<rparr>"])
    using all apply simp
    done
qed

text \<open>
  Claim C2. With at least one eligible sample, a requested count \<open>K \<ge> 1\<close> and a first
  random draw in \<open>[0, 1)\<close> (the range of \<open>Math.random\<close>), \<open>extractColors\<close> resolves with
  a palette whose counts are whole numbers that sum to the number of eligible samples
  exactly.
\<close>

theorem counts_sum_to_samples:
  "collectPoints data \<noteq> [] \<Longrightarrow> 1 \<le> K \<Longrightarrow> 0 \<le> random 0 \<Longrightarrow> random 0 < 1 \<Longrightarrow>
   \<exists>palette (ns :: nat list). extractColors random data (Fin K) = Resolved palette \<and>
      map count palette = map (\<lambda>m. Num (of_nat m)) ns \<and>
      sum_list ns = length (collectPoints data)"
proof -
  assume ne: "collectPoints data \<noteq> []" and K: "1 \<le> K"
    and r0: "0 \<le> random 0" "random 0 < 1"
  define k where "k = nat (min K (int (length (collectPoints data))))"
  from extractColors_palette [where random = random, OF ne K r0]
  obtain ps' :: "Point list" and E where
    lp: "length ps' = length (collectPoints data)"
    and lt: "\<forall>p\<in>set ps'. cluster p < k"
    and E: "\<forall>i. count (E i) = Num (of_nat (length (filter (\<lambda>p. cluster p = i) ps')))"
    and ex: "extractColors random data (Fin K) =
        Resolved (sortEntries (filter (\<lambda>e. positive (count e)) (map E [0..<k])))"
    unfolding k_def by blast
  define palette where "palette = sortEntries (filter (\<lambda>e. positive (count e)) (map E [0..<k]))"
  note facts = entries_counts [of E, OF E [rule_format] palette_def]
  have "extractColors random data (Fin K) = Resolved palette"
    using ex by (simp only: palette_def)
  moreover have "sum_list (map countNat palette) = length (collectPoints data)"
    using facts(2) sum_cluster_sizes [OF lt] lp by simp
  ultimately show ?thesis using facts(1) by blast
qed

theorem counts_sum_to_samples_witness:
  "collectPoints [0, 0, 0, 255, 255, 255, 255, 255, 9, 9, 9, 12 :: 8 word] \<noteq> [] \<and>
   (\<exists>palette (ns :: nat list).
      extractColors (\<lambda>i. 1 / 2) [0, 0, 0, 255, 255, 255, 255, 255, 9, 9, 9, 12] (Fin 6) =
        Resolved palette \<and>
      map count palette = map (\<lambda>m. Num (of_nat m)) ns \<and>
      sum_list ns = length (collectPoints [0, 0, 0, 255, 255, 255, 255, 255, 9, 9, 9, 12 :: 8 word]))"
  using counts_sum_to_samples [where random = "\<lambda>i. 1 / 2" and K = 6
      and data = "[0, 0, 0, 255, 255, 255, 255, 255, 9, 9, 9, 12]"]
  by simp

text \<open>
  Claim C3, as the code has it. For a sample set with at least one eligible sample, a
  requested count \<open>K \<ge> 1\<close> and a first random draw in \<open>[0, 1)\<close>, the palette has at
  least one entry, at most \<open>K\<close> entries, and at most as many entries as the samples
  have distinct colours.
\<close>

theorem palette_size_bounds:
  "collectPoints data \<noteq> [] \<Longrightarrow> 1 \<le> K \<Longrightarrow> 0 \<le> random 0 \<Longrightarrow> random 0 < 1 \<Longrightarrow>
   \<exists>palette. extractColors random data (Fin K) = Resolved palette \<and>
      1 \<le> length palette \<and> int (length palette) \<le> K \<and>
      length palette \<le> length (remdups (map colourOf (collectPoints data)))"
proof -
  assume ne: "collectPoints data \<noteq> []" and K: "1 \<le> K"
    and r0: "0 \<le> random 0" "random 0 < 1"
  define k where "k = nat (min K (int (length (collectPoints data))))"
  from extractColors_palette [where random = random, OF ne K r0]
  obtain ps' E where
    lp: "length ps' = length (collectPoints data)"
    and lt: "\<forall>p\<in>set ps'. cluster p < k"
    and cw: "colourwise ps'"
    and col: "map colourOf ps' = map colourOf (collectPoints data)"
    and E: "\<forall>i. count (E i) = Num (of_nat (length (filter (\<lambda>p. cluster p = i) ps')))"
    and ex: "extractColors random data (Fin K) =
        Resolved (sortEntries (filter (\<lambda>e. positive (count e)) (map E [0..<k])))"
    unfolding k_def by blast
  define palette where "palette = sortEntries (filter (\<lambda>e. positive (count e)) (map E [0..<k]))"
  note facts = entries_counts [of E, OF E [rule_format] palette_def]
  have res: "extractColors random data (Fin K) = Resolved palette"
    using ex by (simp only: palette_def)
  have len: "length palette = card (cluster ` set ps')"
    using facts(3) nonempty_clusters_card [OF lt] by simp
  have "ps' \<noteq> []" using lp ne by auto
  then have "0 < card (cluster ` set ps')" by (simp add: card_gt_0_iff)
  then have one: "1 \<le> length palette" using len by simp
  have "length palette \<le> k"
    using facts(3) length_filter_le [of "\<lambda>i. 0 < length (filter (\<lambda>p. cluster p = i) ps')" "[0..<k]"]
    by simp
  then have atmost: "int (length palette) \<le> K" using K by (simp add: k_def)
  have "card (colourOf ` set ps') = card (set (map colourOf ps'))" by simp
  also have "\<dots> = length (remdups (map colourOf (collectPoints data)))"
    unfolding col by (simp only: length_remdups_card_conv)
  finally have "length palette \<le> length (remdups (map colourOf (collectPoints data)))"
    using colourwise_card [OF cw] len by simp
  with res one atmost show ?thesis by blast
qed

theorem palette_size_bounds_witness:
  "collectPoints [0, 0, 0, 255, 255, 255, 255, 255, 9, 9, 9, 12 :: 8 word] \<noteq> [] \<and>
   (\<exists>palette.
      extractColors (\<lambda>i. 1 / 2) [0, 0, 0, 255, 255, 255, 255, 255, 9, 9, 9, 12] (Fin 6) =
        Resolved palette \<and>
      1 \<le> length palette \<and> int (length palette) \<le> 6 \<and>
      length palette \<le> length (remdups (map colourOf
        (collectPoints [0, 0, 0, 255, 255, 255, 255, 255, 9, 9, 9, 12 :: 8 word]))))"
  using palette_size_bounds [where random = "\<lambda>i. 1 / 2" and K = 6
      and data = "[0, 0, 0, 255, 255, 255, 255, 255, 9, 9, 9, 12]"]
  by simp

text \<open>
  Claim C3 as stated for every sample set fails on the empty one: an image whose only
  pixel is transparent has no eligible sample, hence no distinct sample colour, and
  \<open>extractColors\<close> still resolves with one entry, the white fallback.
\<close>

theorem empty_set_palette_counterexample:
  "collectPoints [10, 20, 30, 0 :: 8 word] = [] \<and>
   length (remdups (map colourOf (collectPoints [10, 20, 30, 0 :: 8 word]))) = 0 \<and>
   extractColors (\<lambda>i. 1 / 2) [10, 20, 30, 0] (Fin 6) =
     Resolved [\<lparr>color = ''#FFFFFF'', count = Num 1, percentage = Num 100\<rparr>] \<and>
   \<not> length [\<lparr>color = ''#FFFFFF'', count = Num 1, percentage = Num 100\<rparr>]
       \<le> length (remdups (map colourOf (collectPoints [10, 20, 30, 0 :: 8 word])))"
  by (simp add: extractColors_def fallback_def)

section \<open>Requested counts that are not positive\<close>

lemma newArray_negative:
  "k = NegInf \<or> k = NotANumber \<or> (\<exists>m<0. k = Fin m) \<Longrightarrow> newArray k = Inl RangeError"
  by auto

lemma mathMin_negative:
  "k = NegInf \<or> k = NotANumber \<or> (\<exists>m<0. k = Fin m) \<Longrightarrow>
   mathMin k n = NegInf \<or> mathMin k n = NotANumber \<or> (\<exists>m<0. mathMin k n = Fin m)"
  by auto

text \<open>
  Claim C1, as the code has it. With at least one eligible sample, a requested count
  that is a negative integer, \<open>NaN\<close> or \<open>-Infinity\<close> makes \<open>extractColors\<close> reject,
  whatever the pixel colours and the random draws; when the first draw is in \<open>[0, 1)\<close>
  the error is the \<open>RangeError\<close> of \<open>new Array(k)\<close>.
\<close>

theorem negative_count_rejects:
  "collectPoints data \<noteq> [] \<Longrightarrow>
   colorCount = NegInf \<or> colorCount = NotANumber \<or> (\<exists>m<0. colorCount = Fin m) \<Longrightarrow>
   (\<exists>e. extractColors random data colorCount = Rejected e) \<and>
   (0 \<le> random 0 \<and> random 0 < 1 \<longrightarrow> extractColors random data colorCount = Rejected RangeError)"
proof -
  assume ne: "collectPoints data \<noteq> []"
    and c: "colorCount = NegInf \<or> colorCount = NotANumber \<or> (\<exists>m<0. colorCount = Fin m)"
  let ?ps = "collectPoints data"
  let ?k = "mathMin colorCount (length ?ps)"
  have na: "newArray ?k = Inl RangeError"
    by (rule newArray_negative [OF mathMin_negative [OF c]])
  have rej: "\<exists>e. extractColors random data colorCount = Rejected e"
    using ne na by (auto simp: extractColors_def Let_def split: sum.splits prod.splits)
  have "extractColors random data colorCount = Rejected RangeError"
    if r0: "0 \<le> random 0" "random 0 < 1"
  proof -
    have "\<exists>res. kMeans random ?ps ?k maxIterationsDefault = Inr res"
      using ne firstIndex_in_range [OF ne r0] by (simp add: kMeans_def Let_def)
    then show ?thesis
      using ne na by (auto simp: extractColors_def Let_def split: sum.splits prod.splits)
  qed
  with rej show ?thesis by blast
qed

theorem negative_count_rejects_witness:
  "collectPoints [0, 0, 0, 255 :: 8 word] \<noteq> [] \<and>
   extractColors (\<lambda>i. 0) [0, 0, 0, 255] (Fin (- 1)) = Rejected RangeError \<and>
   extractColors (\<lambda>i. 0) [0, 0, 0, 255] NotANumber = Rejected RangeError"
  using negative_count_rejects [where random = "\<lambda>i. 0" and data = "[0, 0, 0, 255]"
      and colorCount = "Fin (- 1)"]
    negative_count_rejects [where random = "\<lambda>i. 0" and data = "[0, 0, 0, 255]"
      and colorCount = NotANumber]
  by simp

text \<open>
  Claim C1 as stated fails: on an image of one opaque black pixel a requested count of
  \<open>0\<close> resolves with the empty palette and \<open>+Infinity\<close> resolves with an ordinary
  palette; on a fully transparent pixel a requested count of \<open>-1\<close> resolves with the
  white fallback.
\<close>

theorem zero_count_resolves_counterexample:
  "extractColors (\<lambda>i. 0) [0, 0, 0, 255] (Fin 0) = Resolved [] \<and>
   extractColors (\<lambda>i. 0) [0, 0, 0, 255] PosInf =
     Resolved [\<lparr>color = ''#000000'', count = Num 1, percentage = Num 100\<rparr>] \<and>
   extractColors (\<lambda>i. 0) [0, 0, 0, 0] (Fin (- 1)) =
     Resolved [\<lparr>color = ''#FFFFFF'', count = Num 1, percentage = Num 100\<rparr>]"
  by code_simp

section \<open>Dependence on the random draws\<close>

lemma kMeans_random_cong:
  assumes "\<forall>i<length ps. random1 i = random2 i"
  shows "kMeans random1 ps k n = kMeans random2 ps k n"
proof (cases "ps = []")
  case True
  then show ?thesis by (simp add: kMeans_def)
next
  case False
  with assms have z: "random1 0 = random2 0" by simp
  have "seedLoop random1 ps k 1 c [] = seedLoop random2 ps k 1 c []" for c
    using assms by (intro seedLoop_random_cong) simp
  with z show ?thesis by (simp add: kMeans_def Let_def)
qed

text \<open>
  Claim C4, as the code has it. The draws come from \<open>Math.random\<close>; the result of
  \<open>extractColors\<close> is determined by its input and by the values of the first draws:
  two runs on the same input whose draws agree up to the number of eligible samples
  settle in the same way, with the same palette.
\<close>

theorem same_draws_same_palette:
  "\<forall>i<length (collectPoints data). draws i = draws' i \<Longrightarrow>
   extractColors draws data colorCount = extractColors draws' data colorCount"
  by (simp add: extractColors_def Let_def kMeans_random_cong [of "collectPoints data" draws draws'])

theorem same_draws_same_palette_witness:
  "extractColors (\<lambda>i. if i < 2 then 1 / 2 else 0) [0, 0, 0, 255, 255, 255, 255, 255] (Fin 2) =
   extractColors (\<lambda>i. 1 / 2) [0, 0, 0, 255, 255, 255, 255, 255] (Fin 2)"
  using same_draws_same_palette [where draws = "\<lambda>i. if i < 2 then 1 / 2 else 0"
      and draws' = "\<lambda>i. 1 / 2" and data = "[0, 0, 0, 255, 255, 255, 255, 255]"
      and colorCount = "Fin 2"]
  by simp

text \<open>
  Claim C4 as stated fails: \<open>extractColors\<close> takes no seed or generator, and two runs
  on the same image and the same requested count resolve with different palettes when
  \<open>Math.random\<close> returns \<open>0\<close> in one run and \<open>1/2\<close> in the other.
\<close>

theorem ambient_random_counterexample:
  "extractColors (\<lambda>i. 0) [0, 0, 0, 255, 255, 255, 255, 255] (Fin 1) =
     Resolved [\<lparr>color = ''#000000'', count = Num 2, percentage = Num 100\<rparr>] \<and>
   extractColors (\<lambda>i. 1 / 2) [0, 0, 0, 255, 255, 255, 255, 255] (Fin 1) =
     Resolved [\<lparr>color = ''#FFFFFF'', count = Num 2, percentage = Num 100\<rparr>]"
  by code_simp

end
